theory Spec2Isabelle
  imports Main
begin

section \<open>Strings\<close>

text \<open>
  Python strings are modelled as \<^typ>\<open>string\<close>; a character stands for a code point below 256.
\<close>

definition NL :: char where
  "NL = CHR 0x0A"

text \<open>\<^verbatim>\<open>str.lower()\<close> on one character: only A..Z change.\<close>

definition lower_char :: "char \<Rightarrow> char" where
  "lower_char c =
     (let n = (of_char c :: nat) in if 65 \<le> n \<and> n \<le> 90 then char_of (n + 32) else c)"

definition lower :: "string \<Rightarrow> string" where
  "lower s = map lower_char s"

definition endswith :: "string \<Rightarrow> string \<Rightarrow> bool" where
  "endswith s suf = (length suf \<le> length s \<and> drop (length s - length suf) s = suf)"

text \<open>
  \<^verbatim>\<open>str.isspace()\<close> for one code point below 256: tab, line feed, vertical tab, form feed,
  carriage return, the four separators 28..31, space, NEL (133) and the no-break space (160).
\<close>

definition is_space :: "char \<Rightarrow> bool" where
  "is_space c =
     (let n = (of_char c :: nat) in (9 \<le> n \<and> n \<le> 13) \<or> (28 \<le> n \<and> n \<le> 32) \<or> n = 133 \<or> n = 160)"

text \<open>\<^verbatim>\<open>not s.strip()\<close>: nothing is left once the white space is stripped.\<close>

definition strip_is_empty :: "string \<Rightarrow> bool" where
  "strip_is_empty s = list_all is_space s"

fun join :: "string \<Rightarrow> string list \<Rightarrow> string" where
  "join sep [] = []"
| "join sep [x] = x"
| "join sep (x # y # ys) = x @ sep @ join sep (y # ys)"

definition digit_char :: "nat \<Rightarrow> char" where
  "digit_char d = char_of (48 + d)"

fun str_nat :: "nat \<Rightarrow> string" where
  "str_nat n = (if n < 10 then [digit_char n] else str_nat (n div 10) @ [digit_char (n mod 10)])"

declare str_nat.simps [simp del]

text \<open>\<^verbatim>\<open>str(n)\<close> for a Python integer.\<close>

definition str_int :: "int \<Rightarrow> string" where
  "str_int i = (if i < 0 then CHR ''-'' # str_nat (nat (- i)) else str_nat (nat i))"

section \<open>Configuration (config.py)\<close>

definition MAX_GATHERER_ATTEMPTS :: int where
  "MAX_GATHERER_ATTEMPTS = 3"

definition MAX_RETRIEVAL_ATTEMPTS :: int where
  "MAX_RETRIEVAL_ATTEMPTS = 3"

definition PDF_TOC_PAGE_THRESHOLD :: int where
  "PDF_TOC_PAGE_THRESHOLD = 10"

definition MAX_RETRIES :: nat where
  "MAX_RETRIES = 3"

definition RETRY_DELAYS :: "nat list" where
  "RETRY_DELAYS = [1, 2, 4]"

section \<open>Session state (state.py) and oracle schemas (schemas.py)\<close>

datatype role = Human | AI

type_synonym message = "role \<times> string"

record rag_entry =
  e_query :: string
  e_context :: string
  e_urls :: "string list"

record agent_state =
  chat_id :: string
  messages :: "message list"
  product_name :: string
  classified_question :: string
  gatherer_attempts :: int
  has_enough_info :: bool
  rag_history :: "rag_entry list"
  retrieval_attempts :: int
  is_context_sufficient :: bool
  information_gap :: string
  final_answer :: string
  escalated_to_human :: bool
  pdf_fallback_used :: bool
  user_satisfied :: bool
  feedback_collected :: bool
  clarification_used :: bool
  user_clarification :: string
  clarification_is_actionable :: bool
  feedback_uncertain :: bool

record InformationGathererResponse =
  r_has_enough_info :: bool
  r_follow_up_question :: string
  r_classified_question :: string

record ContextSufficiencyAssessment =
  a_is_sufficient :: bool
  a_information_gap :: string

record FormulatedAnswer =
  f_answer :: string

record UserFeedback =
  u_is_satisfied :: bool
  u_is_uncertain :: bool

record RAGRetrieverQuery =
  q_search_query :: string

record ClarificationAssessment =
  c_is_actionable :: bool
  c_information_gap :: string

record TOCAnalysis =
  t_has_toc :: bool
  t_relevant_pages :: "int list"
  t_most_relevant_section_title :: string

text \<open>The state \<^verbatim>\<open>stream.main\<close> hands to the graph.\<close>

definition initial_state :: "string \<Rightarrow> agent_state" where
  "initial_state cid =
     \<lparr>chat_id = cid, messages = [], product_name = [], classified_question = [],
      gatherer_attempts = 0, has_enough_info = False, rag_history = [],
      retrieval_attempts = 0, is_context_sufficient = False, information_gap = [],
      final_answer = [], escalated_to_human = False, pdf_fallback_used = False,
      user_satisfied = False, feedback_collected = False, clarification_used = False,
      user_clarification = [], clarification_is_actionable = False,
      feedback_uncertain = False\<rparr>"

section \<open>The retry loop around every oracle call\<close>

text \<open>
  One call of \<^verbatim>\<open>structured_llm.invoke\<close> returns a response, raises one of the three
  retried exceptions (\<^verbatim>\<open>APIConnectionError\<close>, \<^verbatim>\<open>APITimeoutError\<close>, \<^verbatim>\<open>RateLimitError\<close>),
  or raises any other exception. An oracle is the outcome of each attempt, by attempt index.
\<close>

datatype 'a attempt = Success 'a | Transient | NonTransient

type_synonym 'a llm = "nat \<Rightarrow> 'a attempt"

record 'a outcome =
  response :: "'a option"
  sleeps :: "nat list"
  invocations :: nat

text \<open>
  \<^verbatim>\<open>for attempt in range(MAX_RETRIES)\<close>: the list holds the attempt indices still to run,
  the outcome accumulates the delays slept and the calls made so far.
\<close>

fun retry_loop :: "'a llm \<Rightarrow> nat list \<Rightarrow> 'a outcome \<Rightarrow> 'a outcome" where
  "retry_loop invoke [] acc = acc"
| "retry_loop invoke (attempt # rest) acc =
     (case invoke attempt of
        Success r \<Rightarrow> acc\<lparr>response := Some r, invocations := invocations acc + 1\<rparr>
      | Transient \<Rightarrow>
          (if attempt < MAX_RETRIES - 1
           then retry_loop invoke rest
                  (acc\<lparr>sleeps := sleeps acc @ [RETRY_DELAYS ! attempt],
                       invocations := invocations acc + 1\<rparr>)
           else retry_loop invoke rest (acc\<lparr>invocations := invocations acc + 1\<rparr>))
      | NonTransient \<Rightarrow> acc\<lparr>invocations := invocations acc + 1\<rparr>)"

definition call_llm :: "'a llm \<Rightarrow> 'a outcome" where
  "call_llm invoke =
     retry_loop invoke [0..<MAX_RETRIES] \<lparr>response = None, sleeps = [], invocations = 0\<rparr>"

section \<open>Agents\<close>

subsection \<open>Agent 1: information gatherer (agents/information_gatherer.py)\<close>

definition information_gatherer_node ::
  "InformationGathererResponse llm \<Rightarrow> agent_state \<Rightarrow> agent_state" where
  "information_gatherer_node invoke s =
     (case response (call_llm invoke) of
        None \<Rightarrow>
          s\<lparr>has_enough_info := False,
            gatherer_attempts := gatherer_attempts s + 1,
            messages := messages s @
              [(AI, ''Could you please provide more details about your issue?'')]\<rparr>
      | Some r \<Rightarrow>
          (if \<not> r_has_enough_info r
           then s\<lparr>has_enough_info := False,
                  gatherer_attempts := gatherer_attempts s + 1,
                  messages := messages s @ [(AI, r_follow_up_question r)]\<rparr>
           else s\<lparr>has_enough_info := True,
                  classified_question := r_classified_question r,
                  messages := messages s @
                    [(AI, ''Understood. Issue: '' @ r_classified_question r)]\<rparr>))"

subsection \<open>Agent 2: retriever (agents/rag_retriever.py)\<close>

text \<open>
  \<^verbatim>\<open>rag_search(product_name, query)\<close> is the vector search: it is taken as a function
  returning the formatted context and the source URLs.
\<close>

type_synonym search = "string \<Rightarrow> string \<Rightarrow> string \<times> string list"

definition rag_retriever_node ::
  "RAGRetrieverQuery llm \<Rightarrow> search \<Rightarrow> agent_state \<Rightarrow> agent_state" where
  "rag_retriever_node invoke rag_search s =
     (case response (call_llm invoke) of
        None \<Rightarrow>
          (let fallback_query = product_name s @ '' '' @ classified_question s;
               (ctx, us) = rag_search (product_name s) fallback_query
           in s\<lparr>rag_history := rag_history s @
                    [\<lparr>e_query = fallback_query, e_context = ctx, e_urls = us\<rparr>],
                 messages := messages s @
                    [(AI, ''RAG search completed (fallback). Query: '' @ fallback_query)]\<rparr>)
      | Some r \<Rightarrow>
          (let (ctx, us) = rag_search (product_name s) (q_search_query r)
           in s\<lparr>rag_history := rag_history s @
                    [\<lparr>e_query = q_search_query r, e_context = ctx, e_urls = us\<rparr>],
                 messages := messages s @
                    [(AI, ''RAG search completed. Query: '' @ q_search_query r)]\<rparr>))"

subsection \<open>Agent 3: quality checker (agents/quality_checker.py)\<close>

definition quality_checker_node ::
  "ContextSufficiencyAssessment llm \<Rightarrow> agent_state \<Rightarrow> agent_state" where
  "quality_checker_node invoke s =
     (let new_retrieval_attempts = retrieval_attempts s + 1 in
      case response (call_llm invoke) of
        None \<Rightarrow>
          s\<lparr>is_context_sufficient := False,
            retrieval_attempts := new_retrieval_attempts,
            information_gap := ''Unable to assess context quality due to LLM error'',
            messages := messages s @
              [(AI, ''Context assessment failed. Attempting another search.'')]\<rparr>
      | Some a \<Rightarrow>
          (if \<not> a_is_sufficient a
           then s\<lparr>is_context_sufficient := False,
                  retrieval_attempts := new_retrieval_attempts,
                  information_gap := a_information_gap a,
                  messages := messages s @
                    [(AI, ''Context insufficient. Information gap: '' @ a_information_gap a)]\<rparr>
           else s\<lparr>is_context_sufficient := True,
                  retrieval_attempts := new_retrieval_attempts,
                  information_gap := []\<rparr>))"

subsection \<open>Agent 4: answer formulator (agents/answer_formulator.py)\<close>

definition apology :: string where
  "apology =
     ''I apologise, but I am currently unable to formulate a response. '' @
     ''Please try again later or contact Dell support directly.''"

definition answer_formulator_node :: "FormulatedAnswer llm \<Rightarrow> agent_state \<Rightarrow> agent_state" where
  "answer_formulator_node invoke s =
     (case response (call_llm invoke) of
        None \<Rightarrow> s\<lparr>final_answer := apology, messages := messages s @ [(AI, apology)]\<rparr>
      | Some f \<Rightarrow> s\<lparr>final_answer := f_answer f, messages := messages s @ [(AI, f_answer f)]\<rparr>)"

subsection \<open>Agent 5: feedback collector (agents/feedback_collector.py)\<close>

definition feedback_collector_node ::
  "string \<Rightarrow> UserFeedback llm \<Rightarrow> agent_state \<Rightarrow> agent_state" where
  "feedback_collector_node user_input invoke s =
     (case response (call_llm invoke) of
        None \<Rightarrow>
          s\<lparr>user_satisfied := True, feedback_collected := True, feedback_uncertain := True,
            messages := messages s @ [(Human, user_input)]\<rparr>
      | Some fb \<Rightarrow>
          (if u_is_uncertain fb
           then s\<lparr>user_satisfied := True, feedback_collected := True,
                  feedback_uncertain := True,
                  messages := messages s @ [(Human, user_input)]\<rparr>
           else s\<lparr>user_satisfied := u_is_satisfied fb, feedback_collected := True,
                  feedback_uncertain := False,
                  messages := messages s @ [(Human, user_input)]\<rparr>))"

subsection \<open>Clarification assessor (agents/clarification_assessor.py)\<close>

definition clarification_assessor_node ::
  "ClarificationAssessment llm \<Rightarrow> agent_state \<Rightarrow> agent_state" where
  "clarification_assessor_node invoke s =
     (case response (call_llm invoke) of
        None \<Rightarrow> s\<lparr>clarification_is_actionable := False, clarification_used := True\<rparr>
      | Some r \<Rightarrow>
          (if c_is_actionable r
           then s\<lparr>clarification_is_actionable := c_is_actionable r,
                  clarification_used := True,
                  information_gap := c_information_gap r,
                  retrieval_attempts := 0\<rparr>
           else s\<lparr>clarification_is_actionable := c_is_actionable r,
                  clarification_used := True\<rparr>))"

subsection \<open>Document fallback (agents/pdf_fallback.py)\<close>

definition startswith :: "string \<Rightarrow> string \<Rightarrow> bool" where
  "startswith s pre = (take (length pre) s = pre)"

definition unsafe_filename_char :: "char \<Rightarrow> bool" where
  "unsafe_filename_char c =
     (c \<in> set [CHR 0x5C, CHR ''/'', CHR '':'', CHR ''*'', CHR ''?'', CHR 0x22,
               CHR ''<'', CHR ''>'', CHR ''|''])"

definition sanitise_url_for_filename :: "string \<Rightarrow> string" where
  "sanitise_url_for_filename url =
     (let base = (if startswith url ''http://'' then drop 7 url
                  else if startswith url ''https://'' then drop 8 url
                  else url);
          base = map (\<lambda>c. if unsafe_filename_char c then CHR ''_'' else c) base
      in take 240 base)"

text \<open>
  The directory \<^verbatim>\<open>PDF_DIR\<close> maps a file name to the document stored under it, a document
  being the text of each of its pages (\<^verbatim>\<open>doc[idx].get_text()\<close>); \<open>None\<close> when no such
  file exists.
\<close>

type_synonym document = "string list"

type_synonym pdf_dir = "string \<Rightarrow> document option"

definition find_pdf_on_disk :: "pdf_dir \<Rightarrow> string \<Rightarrow> document option" where
  "find_pdf_on_disk disk url = disk (sanitise_url_for_filename url @ ''-1.pdf'')"

text \<open>
  A \<^verbatim>\<open>Counter\<close> is a dictionary: an association list in insertion order, one pair per key.
\<close>

type_synonym counter = "(string \<times> nat) list"

fun counter_incr :: "counter \<Rightarrow> string \<Rightarrow> counter" where
  "counter_incr [] k = [(k, 1)]"
| "counter_incr ((k', n) # kvs) k =
     (if k' = k then (k', n + 1) # kvs else (k', n) # counter_incr kvs k)"

definition is_pdf_url :: "string \<Rightarrow> bool" where
  "is_pdf_url url = endswith (lower url) ''.pdf''"

definition count_pdf_urls :: "rag_entry list \<Rightarrow> counter" where
  "count_pdf_urls hist =
     foldl (\<lambda>url_counts entry.
              foldl (\<lambda>url_counts url.
                       if is_pdf_url url then counter_incr url_counts url else url_counts)
                    url_counts (e_urls entry))
           [] hist"

text \<open>
  \<^verbatim>\<open>most_common(1)\<close> is \<^verbatim>\<open>heapq.nlargest(1, items, key=count)\<close>, which is \<^verbatim>\<open>max\<close> over
  the items in dictionary order: a later item replaces the best one only when its count is
  strictly larger.
\<close>

fun max_by_count :: "string \<times> nat \<Rightarrow> counter \<Rightarrow> string \<times> nat" where
  "max_by_count best [] = best"
| "max_by_count best (kv # kvs) = max_by_count (if snd best < snd kv then kv else best) kvs"

definition most_common_1 :: "counter \<Rightarrow> counter" where
  "most_common_1 c = (case c of [] \<Rightarrow> [] | kv # kvs \<Rightarrow> [max_by_count kv kvs])"

definition get_most_frequent_pdf_url :: "rag_entry list \<Rightarrow> string option" where
  "get_most_frequent_pdf_url hist =
     (let url_counts = count_pdf_urls hist
      in if url_counts = [] then None else Some (fst (hd (most_common_1 url_counts))))"

text \<open>The loop of \<^verbatim>\<open>_extract_pages_text\<close>, building \<^verbatim>\<open>parts\<close>.\<close>

fun extract_parts :: "document \<Rightarrow> int list \<Rightarrow> string list \<Rightarrow> string list" where
  "extract_parts doc [] parts = parts"
| "extract_parts doc (page_num # rest) parts =
     (let idx = page_num - 1 in
      if 0 \<le> idx \<and> idx < int (length doc)
      then (let page_text = doc ! nat idx in
            if \<not> strip_is_empty page_text
            then extract_parts doc rest
                   (parts @ [''--- Page '' @ str_int page_num @ '' ---'' @ [NL] @ page_text])
            else extract_parts doc rest parts)
      else extract_parts doc rest parts)"

definition extract_pages_text :: "document \<Rightarrow> int list \<Rightarrow> string" where
  "extract_pages_text doc page_numbers = join [NL, NL] (extract_parts doc page_numbers [])"

definition get_page_count :: "document \<Rightarrow> int" where
  "get_page_count doc = int (length doc)"

definition small_pdf_answer :: "string \<Rightarrow> int \<Rightarrow> string \<Rightarrow> string" where
  "small_pdf_answer pdf_url page_count extracted_text =
     ''We could not find an exact answer to your query after multiple '' @
     ''search attempts, but the following document may contain useful '' @
     ''information.'' @ [NL, NL] @
     ''Source: '' @ pdf_url @ [NL] @
     ''Pages: all ('' @ str_int page_count @ '' pages)'' @ [NL, NL] @
     extracted_text"

definition large_pdf_answer :: "string \<Rightarrow> string \<Rightarrow> int list \<Rightarrow> string \<Rightarrow> string" where
  "large_pdf_answer pdf_url title pages extracted_text =
     (let section_note =
            (if title \<noteq> [] then ''Relevant section: '' @ title @ [NL] else []);
          pages_str = join '', '' (map str_int pages)
      in ''We could not find an exact answer to your query after multiple '' @
         ''search attempts, but the following section from a related document '' @
         ''may contain useful information.'' @ [NL, NL] @
         ''Source: '' @ pdf_url @ [NL] @
         section_note @
         ''Pages: '' @ pages_str @ [NL, NL] @
         extracted_text)"

definition pdf_fallback_node :: "pdf_dir \<Rightarrow> TOCAnalysis llm \<Rightarrow> agent_state \<Rightarrow> agent_state" where
  "pdf_fallback_node disk invoke s =
     (case get_most_frequent_pdf_url (rag_history s) of
        None \<Rightarrow> s\<lparr>pdf_fallback_used := False\<rparr>
      | Some pdf_url \<Rightarrow>
     (case find_pdf_on_disk disk pdf_url of
        None \<Rightarrow> s\<lparr>pdf_fallback_used := False\<rparr>
      | Some doc \<Rightarrow>
     (let page_count = get_page_count doc in
      if page_count \<le> PDF_TOC_PAGE_THRESHOLD
      then (let extracted_text = extract_pages_text doc [1..page_count] in
            if strip_is_empty extracted_text then s\<lparr>pdf_fallback_used := False\<rparr>
            else (let fallback_answer = small_pdf_answer pdf_url page_count extracted_text
                  in s\<lparr>pdf_fallback_used := True, final_answer := fallback_answer,
                       messages := messages s @ [(AI, fallback_answer)]\<rparr>))
      else (let first_pages_text = extract_pages_text doc [1..PDF_TOC_PAGE_THRESHOLD] in
            if strip_is_empty first_pages_text then s\<lparr>pdf_fallback_used := False\<rparr>
            else
     (case response (call_llm invoke) of
        None \<Rightarrow> s\<lparr>pdf_fallback_used := False\<rparr>
      | Some toc \<Rightarrow>
          (if \<not> t_has_toc toc then s\<lparr>pdf_fallback_used := False\<rparr>
           else if t_relevant_pages toc = [] then s\<lparr>pdf_fallback_used := False\<rparr>
           else (let extracted_text = extract_pages_text doc (t_relevant_pages toc) in
                 if strip_is_empty extracted_text then s\<lparr>pdf_fallback_used := False\<rparr>
                 else (let fallback_answer =
                             large_pdf_answer pdf_url (t_most_relevant_section_title toc)
                               (t_relevant_pages toc) extracted_text
                       in s\<lparr>pdf_fallback_used := True, final_answer := fallback_answer,
                            messages := messages s @ [(AI, fallback_answer)]\<rparr>))))))))"

section \<open>Outcome log and tickets (logging_/csv_logger.py, logging_/ticket_writer.py)\<close>

text \<open>A row of each CSV file, without its time stamp; the files are append-only lists of rows.\<close>

record log_row =
  l_chat_id :: string
  l_product :: string
  l_question :: string
  l_status :: string
  l_escalated :: bool
  l_gatherer_attempts :: int
  l_retrieval_attempts :: int
  l_user_satisfied :: bool
  l_feedback_uncertain :: bool
  l_feedback_collected :: bool

record ticket =
  k_chat_id :: string
  k_product :: string
  k_question :: string
  k_answer_given :: string
  k_escalated :: bool
  k_description :: string

record world =
  support_log :: "log_row list"
  tickets :: "ticket list"
  slept :: "nat list"

definition write_support_log :: "log_row \<Rightarrow> world \<Rightarrow> world" where
  "write_support_log row w = w\<lparr>support_log := support_log w @ [row]\<rparr>"

definition write_ticket :: "ticket \<Rightarrow> world \<Rightarrow> world" where
  "write_ticket t w = w\<lparr>tickets := tickets w @ [t]\<rparr>"

definition str_bool :: "bool \<Rightarrow> string" where
  "str_bool b = (if b then ''True'' else ''False'')"

section \<open>The graph (graph.py)\<close>

subsection \<open>Nodes defined in graph.py\<close>

text \<open>
  The product menu (fuzzy matching over the product list and the choice of a candidate) is
  taken as its result: the slug selected and the first utterance typed.
\<close>

definition product_selector_node :: "string \<Rightarrow> string \<Rightarrow> agent_state \<Rightarrow> agent_state" where
  "product_selector_node slug question s =
     s\<lparr>product_name := slug, messages := messages s @ [(Human, question)]\<rparr>"

definition ask_user_for_details_node :: "string \<Rightarrow> agent_state \<Rightarrow> agent_state" where
  "ask_user_for_details_node user_input s =
     s\<lparr>messages := messages s @ [(Human, user_input)]\<rparr>"

definition present_answer_node :: "agent_state \<Rightarrow> agent_state" where
  "present_answer_node s = s\<lparr>escalated_to_human := False\<rparr>"

definition ask_for_clarification_node :: "string \<Rightarrow> agent_state \<Rightarrow> agent_state" where
  "ask_for_clarification_node user_input s =
     (if user_input = []
      then s\<lparr>user_clarification := [], clarification_is_actionable := False,
             clarification_used := True\<rparr>
      else s\<lparr>user_clarification := user_input\<rparr>)"

definition present_fallback_answer_node :: "agent_state \<Rightarrow> agent_state" where
  "present_fallback_answer_node s = s\<lparr>escalated_to_human := False\<rparr>"

definition notice :: string where
  "notice =
     ''We were unable to find a sufficient answer to your query after '' @
     ''multiple attempts. Your case has been escalated to a human support '' @
     ''agent who will be in touch shortly.''"

definition escalate_node :: "agent_state \<Rightarrow> agent_state" where
  "escalate_node s = s\<lparr>escalated_to_human := True, final_answer := notice\<rparr>"

definition log_pre_feedback_node :: "agent_state \<Rightarrow> world \<Rightarrow> world" where
  "log_pre_feedback_node s w =
     (let escalated = escalated_to_human s;
          status = (if escalated then ''escalated'' else ''pending_feedback'')
      in write_support_log
           \<lparr>l_chat_id = chat_id s, l_product = product_name s,
            l_question = classified_question s, l_status = status,
            l_escalated = escalated, l_gatherer_attempts = gatherer_attempts s,
            l_retrieval_attempts = retrieval_attempts s, l_user_satisfied = False,
            l_feedback_uncertain = False, l_feedback_collected = False\<rparr> w)"

definition ticket_description :: "agent_state \<Rightarrow> string" where
  "ticket_description s =
     ''Customer was not satisfied with the support provided. '' @
     ''Product: '' @ product_name s @ ''. Question: '' @ classified_question s @ ''. '' @
     ''Escalated: '' @ str_bool (escalated_to_human s) @ ''. '' @
     ''Gatherer attempts: '' @ str_int (gatherer_attempts s) @ ''. '' @
     ''Retrieval attempts: '' @ str_int (retrieval_attempts s) @ ''.''"

definition log_result_node :: "agent_state \<Rightarrow> world \<Rightarrow> world" where
  "log_result_node s w =
     (let escalated = escalated_to_human s;
          status = (if escalated then ''escalated''
                    else if user_satisfied s then ''success''
                    else ''failure'');
          w = write_support_log
                \<lparr>l_chat_id = chat_id s, l_product = product_name s,
                 l_question = classified_question s, l_status = status,
                 l_escalated = escalated, l_gatherer_attempts = gatherer_attempts s,
                 l_retrieval_attempts = retrieval_attempts s,
                 l_user_satisfied = user_satisfied s,
                 l_feedback_uncertain = feedback_uncertain s,
                 l_feedback_collected = (\<not> escalated)\<rparr> w
      in if \<not> user_satisfied s
         then write_ticket
                \<lparr>k_chat_id = chat_id s, k_product = product_name s,
                 k_question = classified_question s, k_answer_given = final_answer s,
                 k_escalated = escalated, k_description = ticket_description s\<rparr> w
         else w)"

subsection \<open>Routing\<close>

datatype node =
    ProductSelector | InformationGatherer | AskUserForDetails | RagRetriever
  | QualityChecker | AnswerFormulator | PresentAnswer | Escalate | PdfFallback
  | PresentFallbackAnswer | AskForClarification | ClarificationAssessor
  | LogPreFeedback | CollectFeedback | LogResult | END

definition route_after_gatherer :: "agent_state \<Rightarrow> node" where
  "route_after_gatherer s =
     (if has_enough_info s then RagRetriever
      else if gatherer_attempts s \<ge> MAX_GATHERER_ATTEMPTS then RagRetriever
      else AskUserForDetails)"

definition route_after_quality_checker :: "agent_state \<Rightarrow> node" where
  "route_after_quality_checker s =
     (if is_context_sufficient s then AnswerFormulator
      else if retrieval_attempts s \<ge> MAX_RETRIEVAL_ATTEMPTS then PdfFallback
      else RagRetriever)"

definition route_after_present_answer :: "agent_state \<Rightarrow> node" where
  "route_after_present_answer s =
     (if clarification_used s then LogPreFeedback else AskForClarification)"

definition route_after_clarification :: "agent_state \<Rightarrow> node" where
  "route_after_clarification s =
     (if user_clarification s = [] then LogPreFeedback else ClarificationAssessor)"

definition route_after_clarification_assessor :: "agent_state \<Rightarrow> node" where
  "route_after_clarification_assessor s =
     (if clarification_is_actionable s then RagRetriever else LogPreFeedback)"

definition route_after_log_pre_feedback :: "agent_state \<Rightarrow> node" where
  "route_after_log_pre_feedback s =
     (if escalated_to_human s then LogResult else CollectFeedback)"

definition route_after_pdf_fallback :: "agent_state \<Rightarrow> node" where
  "route_after_pdf_fallback s =
     (if pdf_fallback_used s then PresentFallbackAnswer else Escalate)"

subsection \<open>Running the graph\<close>

text \<open>
  What the outside world supplies while one node runs: the product menu's result, the line
  the user types, the outcome of each oracle attempt, the search backend and the document
  directory.
\<close>

record ext =
  x_slug :: string
  x_line :: string
  x_gatherer :: "InformationGathererResponse llm"
  x_retriever :: "RAGRetrieverQuery llm"
  x_search :: search
  x_checker :: "ContextSufficiencyAssessment llm"
  x_formulator :: "FormulatedAnswer llm"
  x_feedback :: "UserFeedback llm"
  x_assessor :: "ClarificationAssessment llm"
  x_toc :: "TOCAnalysis llm"
  x_disk :: pdf_dir

definition nap :: "'a llm \<Rightarrow> world \<Rightarrow> world" where
  "nap invoke w = w\<lparr>slept := slept w @ sleeps (call_llm invoke)\<rparr>"

text \<open>
  The oracle of the document fallback is called only on the large-document branch, once the
  first pages gave text.
\<close>

definition toc_called :: "pdf_dir \<Rightarrow> agent_state \<Rightarrow> bool" where
  "toc_called disk s =
     (case get_most_frequent_pdf_url (rag_history s) of
        None \<Rightarrow> False
      | Some pdf_url \<Rightarrow>
          (case find_pdf_on_disk disk pdf_url of
             None \<Rightarrow> False
           | Some doc \<Rightarrow>
               \<not> get_page_count doc \<le> PDF_TOC_PAGE_THRESHOLD \<and>
               \<not> strip_is_empty (extract_pages_text doc [1..PDF_TOC_PAGE_THRESHOLD])))"

type_synonym config = "node \<times> agent_state \<times> world"

text \<open>One node runs, its update is merged into the state, and the edge out of it is taken.\<close>

fun step :: "ext \<Rightarrow> config \<Rightarrow> config" where
  "step x (ProductSelector, s, w) =
     (InformationGatherer, product_selector_node (x_slug x) (x_line x) s, w)"
| "step x (InformationGatherer, s, w) =
     (let s' = information_gatherer_node (x_gatherer x) s
      in (route_after_gatherer s', s', nap (x_gatherer x) w))"
| "step x (AskUserForDetails, s, w) =
     (InformationGatherer, ask_user_for_details_node (x_line x) s, w)"
| "step x (RagRetriever, s, w) =
     (QualityChecker, rag_retriever_node (x_retriever x) (x_search x) s,
      nap (x_retriever x) w)"
| "step x (QualityChecker, s, w) =
     (let s' = quality_checker_node (x_checker x) s
      in (route_after_quality_checker s', s', nap (x_checker x) w))"
| "step x (AnswerFormulator, s, w) =
     (PresentAnswer, answer_formulator_node (x_formulator x) s, nap (x_formulator x) w)"
| "step x (PresentAnswer, s, w) =
     (let s' = present_answer_node s in (route_after_present_answer s', s', w))"
| "step x (Escalate, s, w) = (LogPreFeedback, escalate_node s, w)"
| "step x (PdfFallback, s, w) =
     (let s' = pdf_fallback_node (x_disk x) (x_toc x) s
      in (route_after_pdf_fallback s', s',
          if toc_called (x_disk x) s then nap (x_toc x) w else w))"
| "step x (PresentFallbackAnswer, s, w) =
     (LogPreFeedback, present_fallback_answer_node s, w)"
| "step x (AskForClarification, s, w) =
     (let s' = ask_for_clarification_node (x_line x) s
      in (route_after_clarification s', s', w))"
| "step x (ClarificationAssessor, s, w) =
     (let s' = clarification_assessor_node (x_assessor x) s
      in (route_after_clarification_assessor s', s', nap (x_assessor x) w))"
| "step x (LogPreFeedback, s, w) =
     (route_after_log_pre_feedback s, s, log_pre_feedback_node s w)"
| "step x (CollectFeedback, s, w) =
     (LogResult, feedback_collector_node (x_line x) (x_feedback x) s, nap (x_feedback x) w)"
| "step x (LogResult, s, w) = (END, s, log_result_node s w)"
| "step x (END, s, w) = (END, s, w)"

text \<open>A session prefix: the nodes run one after the other, each with its own outside world.\<close>

fun exec :: "ext list \<Rightarrow> config \<Rightarrow> config" where
  "exec [] c = c"
| "exec (x # xs) c = exec xs (step x c)"

text \<open>The nodes that ran, in order.\<close>

fun trace :: "ext list \<Rightarrow> config \<Rightarrow> node list" where
  "trace [] c = []"
| "trace (x # xs) c = fst c # trace xs (step x c)"

definition start :: "string \<Rightarrow> config" where
  "start cid = (ProductSelector, initial_state cid, \<lparr>support_log = [], tickets = [], slept = []\<rparr>)"

abbreviation node_of :: "config \<Rightarrow> node" where
  "node_of c \<equiv> fst c"

abbreviation state_of :: "config \<Rightarrow> agent_state" where
  "state_of c \<equiv> fst (snd c)"

abbreviation world_of :: "config \<Rightarrow> world" where
  "world_of c \<equiv> snd (snd c)"

section \<open>Oracle behaviours\<close>




text \<open>The gatherer's verdict, the fallback included, is that the information is not enough.\<close>

definition reports_insufficient :: "InformationGathererResponse llm \<Rightarrow> bool" where
  "reports_insufficient invoke =
     (case response (call_llm invoke) of None \<Rightarrow> True | Some r \<Rightarrow> \<not> r_has_enough_info r)"

text \<open>Every answer the formulator oracle returns has some text.\<close>

definition answers_with_text :: "FormulatedAnswer llm \<Rightarrow> bool" where
  "answers_with_text invoke =
     (case response (call_llm invoke) of None \<Rightarrow> True | Some f \<Rightarrow> f_answer f \<noteq> [])"

text \<open>The feedback oracle answers and classifies the closing input as uncertain.\<close>

definition classifies_uncertain :: "UserFeedback llm \<Rightarrow> bool" where
  "classifies_uncertain invoke =
     (case response (call_llm invoke) of None \<Rightarrow> False | Some fb \<Rightarrow> u_is_uncertain fb)"

section \<open>Pages taken by an extraction\<close>

text \<open>
  The page numbers for which \<^const>\<open>extract_parts\<close> appends a part: those inside the document
  whose page has visible text.
\<close>

definition page_block :: "document \<Rightarrow> int \<Rightarrow> string" where
  "page_block doc page_num =
     ''--- Page '' @ str_int page_num @ '' ---'' @ [NL] @ doc ! nat (page_num - 1)"

definition has_text :: "document \<Rightarrow> int \<Rightarrow> bool" where
  "has_text doc page_num =
     (0 \<le> page_num - 1 \<and> page_num - 1 < int (length doc) \<and>
      \<not> strip_is_empty (doc ! nat (page_num - 1)))"

definition pages_taken :: "document \<Rightarrow> int list \<Rightarrow> int list" where
  "pages_taken doc page_numbers = filter (has_text doc) page_numbers"

section \<open>Sample sessions\<close>

text \<open>An outside world in which every oracle call fails at once, nothing is found and the
  user types nothing.\<close>

definition quiet :: ext where
  "quiet =
     \<lparr>x_slug = ''general'', x_line = [], x_gatherer = (\<lambda>_. NonTransient),
      x_retriever = (\<lambda>_. NonTransient), x_search = (\<lambda>_ _. ([], [])),
      x_checker = (\<lambda>_. NonTransient), x_formulator = (\<lambda>_. NonTransient),
      x_feedback = (\<lambda>_. NonTransient), x_assessor = (\<lambda>_. NonTransient),
      x_toc = (\<lambda>_. NonTransient), x_disk = (\<lambda>_. None)\<rparr>"

text \<open>The gatherer oracle answers, and always asks for more.\<close>

definition vague :: ext where
  "vague =
     quiet\<lparr>x_slug := ''latitude-5420'', x_line := ''screen is blank'',
           x_gatherer := (\<lambda>_. Success \<lparr>r_has_enough_info = False,
              r_follow_up_question = ''Which lights are on?'',
              r_classified_question = []\<rparr>)\<rparr>"

text \<open>Every oracle answers at the first attempt and is content; the feedback is judged
  uncertain.\<close>

definition helpful :: ext where
  "helpful =
     \<lparr>x_slug = ''latitude-5420'', x_line = [],
      x_gatherer = (\<lambda>_. Success \<lparr>r_has_enough_info = True, r_follow_up_question = [],
         r_classified_question = ''Screen stays blank on start''\<rparr>),
      x_retriever = (\<lambda>_. Success \<lparr>q_search_query = ''blank screen''\<rparr>),
      x_search = (\<lambda>_ _. (''[1] Display'', [''https://dell.example/manual.pdf''])),
      x_checker = (\<lambda>_. Success \<lparr>a_is_sufficient = True, a_information_gap = []\<rparr>),
      x_formulator = (\<lambda>_. Success \<lparr>f_answer = ''Hold the power button.''\<rparr>),
      x_feedback = (\<lambda>_. Success \<lparr>u_is_satisfied = False, u_is_uncertain = True\<rparr>),
      x_assessor = (\<lambda>_. Success \<lparr>c_is_actionable = False, c_information_gap = []\<rparr>),
      x_toc = (\<lambda>_. NonTransient), x_disk = (\<lambda>_. None)\<rparr>"



section \<open>Invariants of the graph\<close>

text \<open>
  Before the gatherer or the retrieval loop runs again its counter is still below the
  ceiling; everywhere else the counters are at most the ceiling.
\<close>

fun attempts_inv :: "config \<Rightarrow> bool" where
  "attempts_inv (n, s, w) =
     (if n \<in> set [ProductSelector, InformationGatherer, AskUserForDetails]
      then gatherer_attempts s < MAX_GATHERER_ATTEMPTS \<and>
           retrieval_attempts s < MAX_RETRIEVAL_ATTEMPTS
      else if n \<in> set [RagRetriever, QualityChecker]
      then gatherer_attempts s \<le> MAX_GATHERER_ATTEMPTS \<and>
           retrieval_attempts s < MAX_RETRIEVAL_ATTEMPTS
      else gatherer_attempts s \<le> MAX_GATHERER_ATTEMPTS \<and>
           retrieval_attempts s \<le> MAX_RETRIEVAL_ATTEMPTS)"

text \<open>
  The satisfaction flag is still unset until the feedback collector has run, and the
  collector runs in sessions that were not escalated only.
\<close>

fun feedback_inv :: "config \<Rightarrow> bool" where
  "feedback_inv (n, s, w) =
     (if n = END then True
      else if n = LogResult then \<not> (escalated_to_human s \<and> user_satisfied s)
      else if n = CollectFeedback then \<not> user_satisfied s \<and> \<not> escalated_to_human s
      else \<not> user_satisfied s)"

text \<open>From the presentation of an answer on, the answer has some text.\<close>

fun answer_inv :: "config \<Rightarrow> bool" where
  "answer_inv (n, s, w) =
     (if n \<in> set [PresentAnswer, PresentFallbackAnswer, AskForClarification,
                   ClarificationAssessor, LogPreFeedback, CollectFeedback, LogResult, END]
      then final_answer s \<noteq> []
      else True)"

text \<open>The gathering stages are behind.\<close>

fun past_gathering :: "config \<Rightarrow> bool" where
  "past_gathering (n, s, w) =
     (n \<notin> set [ProductSelector, InformationGatherer, AskUserForDetails])"

text \<open>The clarification assessor's verdict, the fallback included, is "actionable".\<close>

definition judges_actionable :: "ClarificationAssessment llm \<Rightarrow> bool" where
  "judges_actionable invoke =
     (case response (call_llm invoke) of None \<Rightarrow> False | Some r \<Rightarrow> c_is_actionable r)"

text \<open>As \<^const>\<open>helpful\<close>, but the formulator oracle returns an answer with no text.\<close>

definition mute :: ext where
  "mute = helpful\<lparr>x_formulator := (\<lambda>_. Success \<lparr>f_answer = []\<rparr>)\<rparr>"


section \<open>Sample documents\<close>

definition manual_url :: string where
  "manual_url = ''https://dell.example/manual.pdf''"

text \<open>A state whose retrieval history cites the manual once.\<close>

definition cited :: agent_state where
  "cited =
     (initial_state ''c'')
       \<lparr>product_name := ''latitude-5420'',
        classified_question := ''Screen stays blank on start'',
        rag_history := [\<lparr>e_query = ''blank screen'', e_context = ''[1] Display'',
                         e_urls = [manual_url]\<rparr>]\<rparr>"

text \<open>A document directory holding one file, the download of the manual.\<close>

definition shelf :: "document \<Rightarrow> pdf_dir" where
  "shelf doc = (\<lambda>name. if name = ''dell.example_manual.pdf-1.pdf'' then Some doc else None)"

definition leaflet :: document where
  "leaflet = [''Hold the power button.'', ''   '', ''Reseat the memory.'']"

definition handbook :: document where
  "handbook = replicate 21 ''Display''"

definition toc21 :: TOCAnalysis where
  "toc21 = \<lparr>t_has_toc = True, t_relevant_pages = [1..21],
            t_most_relevant_section_title = ''Display''\<rparr>"

text \<open>An oracle that answers at the first attempt.\<close>

definition answering :: "'a \<Rightarrow> 'a llm" where
  "answering r = (\<lambda>attempt. Success r)"

text \<open>
  A history of two searches: the two PDF locators are cited twice each, the first one seen
  being \<open>a.pdf\<close>; the page that is not a PDF is cited three times.
\<close>

definition tied_history :: "rag_entry list" where
  "tied_history =
     [\<lparr>e_query = ''blank screen'', e_context = ''[1] Display'',
       e_urls = [''https://dell.example/a.pdf'', ''https://dell.example/page.html'',
                 ''https://dell.example/B.PDF'']\<rparr>,
      \<lparr>e_query = ''no display'', e_context = ''[1] Monitor'',
       e_urls = [''https://dell.example/B.PDF'', ''https://dell.example/page.html'',
                 ''https://dell.example/a.pdf'', ''https://dell.example/page.html'']\<rparr>]"

section \<open>A search that may raise\<close>









section \<open>The retry loop\<close>










section \<open>What each node leaves unchanged\<close>

lemma exec_append: "exec (xs @ ys) c = exec ys (exec xs c)"
  by (induction xs arbitrary: c) simp_all

lemma trace_append: "trace (xs @ ys) c = trace xs c @ trace ys (exec xs c)"
  by (induction xs arbitrary: c) simp_all

lemma pdf_fallback_frame:
  "gatherer_attempts (pdf_fallback_node disk t s) = gatherer_attempts s"
  "retrieval_attempts (pdf_fallback_node disk t s) = retrieval_attempts s"
  "escalated_to_human (pdf_fallback_node disk t s) = escalated_to_human s"
  "user_satisfied (pdf_fallback_node disk t s) = user_satisfied s"
  "clarification_used (pdf_fallback_node disk t s) = clarification_used s"
  by (simp_all add: pdf_fallback_node_def Let_def split: option.splits)

lemma small_pdf_answer_nonempty: "small_pdf_answer url n txt \<noteq> []"
  by (simp add: small_pdf_answer_def)

lemma large_pdf_answer_nonempty: "large_pdf_answer url title pages txt \<noteq> []"
  by (simp add: large_pdf_answer_def Let_def)

lemma pdf_fallback_answer:
  "pdf_fallback_used (pdf_fallback_node disk t s) \<Longrightarrow>
   final_answer (pdf_fallback_node disk t s) \<noteq> []"
  by (auto simp: pdf_fallback_node_def Let_def small_pdf_answer_nonempty
        large_pdf_answer_nonempty split: option.splits if_splits)

section \<open>The attempt ceilings\<close>

lemma attempts_inv_start: "attempts_inv (start cid)"
  by (simp add: start_def initial_state_def MAX_GATHERER_ATTEMPTS_def
        MAX_RETRIEVAL_ATTEMPTS_def)

lemma attempts_inv_step: "attempts_inv c \<Longrightarrow> attempts_inv (step x c)"
proof -
  obtain n s w where c: "c = (n, s, w)" by (cases c)
  assume "attempts_inv c"
  with c show ?thesis
    by (cases n)
       (auto simp: Let_def MAX_GATHERER_ATTEMPTS_def MAX_RETRIEVAL_ATTEMPTS_def
          product_selector_node_def information_gatherer_node_def
          ask_user_for_details_node_def rag_retriever_node_def quality_checker_node_def
          answer_formulator_node_def present_answer_node_def escalate_node_def
          present_fallback_answer_node_def ask_for_clarification_node_def
          clarification_assessor_node_def feedback_collector_node_def
          route_after_gatherer_def route_after_quality_checker_def
          route_after_present_answer_def route_after_clarification_def
          route_after_clarification_assessor_def route_after_log_pre_feedback_def
          route_after_pdf_fallback_def pdf_fallback_frame split_beta
          split: option.splits if_splits)
qed

lemma attempts_inv_exec: "attempts_inv c \<Longrightarrow> attempts_inv (exec xs c)"
  by (induction xs arbitrary: c) (simp_all add: attempts_inv_step)

lemma attempts_inv_bounds:
  "attempts_inv c \<Longrightarrow>
   gatherer_attempts (state_of c) \<le> MAX_GATHERER_ATTEMPTS \<and>
   retrieval_attempts (state_of c) \<le> MAX_RETRIEVAL_ATTEMPTS"
  by (cases c) (auto split: if_splits)

text \<open>
  Claim C2. At every point of every session, whatever the oracles and the user do,
  \<open>gatherer_attempts\<close> is at most \<open>MAX_GATHERER_ATTEMPTS = 3\<close> and \<open>retrieval_attempts\<close> is at
  most \<open>MAX_RETRIEVAL_ATTEMPTS = 3\<close>; a session prefix is any list of outside worlds, one per
  node run, so the bound also holds after the clarification assessor has reset
  \<open>retrieval_attempts\<close> to 0 and the retrieval loop has run again.
\<close>

theorem attempt_counters_never_exceed_ceilings:
  "gatherer_attempts (state_of (exec xs (start cid))) \<le> MAX_GATHERER_ATTEMPTS \<and>
   retrieval_attempts (state_of (exec xs (start cid))) \<le> MAX_RETRIEVAL_ATTEMPTS \<and>
   MAX_GATHERER_ATTEMPTS = 3 \<and> MAX_RETRIEVAL_ATTEMPTS = 3"
  using attempts_inv_bounds [OF attempts_inv_exec [OF attempts_inv_start]]
  by (simp add: MAX_GATHERER_ATTEMPTS_def MAX_RETRIEVAL_ATTEMPTS_def)

section \<open>Feedback, outcome and tickets\<close>

lemma feedback_inv_start: "feedback_inv (start cid)"
  by (simp add: start_def initial_state_def)

lemma feedback_inv_step: "feedback_inv c \<Longrightarrow> feedback_inv (step x c)"
proof -
  obtain n s w where c: "c = (n, s, w)" by (cases c)
  assume "feedback_inv c"
  with c show ?thesis
    by (cases n)
       (auto simp: Let_def
          product_selector_node_def information_gatherer_node_def
          ask_user_for_details_node_def rag_retriever_node_def quality_checker_node_def
          answer_formulator_node_def present_answer_node_def escalate_node_def
          present_fallback_answer_node_def ask_for_clarification_node_def
          clarification_assessor_node_def feedback_collector_node_def
          route_after_gatherer_def route_after_quality_checker_def
          route_after_present_answer_def route_after_clarification_def
          route_after_clarification_assessor_def route_after_log_pre_feedback_def
          route_after_pdf_fallback_def pdf_fallback_frame split_beta
          split: option.splits if_splits)
qed

lemma feedback_inv_exec: "feedback_inv c \<Longrightarrow> feedback_inv (exec xs c)"
  by (induction xs arbitrary: c) (simp_all add: feedback_inv_step)

lemma escalated_at_log_result:
  assumes "exec xs (start cid) = (LogResult, s, w)" "escalated_to_human s"
  shows "\<not> user_satisfied s"
  using feedback_inv_exec [OF feedback_inv_start, of xs cid] assms by simp

lemma not_escalated_at_collect_feedback:
  assumes "exec xs (start cid) = (CollectFeedback, s, w)"
  shows "\<not> escalated_to_human s"
  using feedback_inv_exec [OF feedback_inv_start, of xs cid] assms by simp

lemma log_result_tickets:
  "tickets (log_result_node s w) =
     (if user_satisfied s then tickets w
      else tickets w @
           [\<lparr>k_chat_id = chat_id s, k_product = product_name s,
             k_question = classified_question s, k_answer_given = final_answer s,
             k_escalated = escalated_to_human s, k_description = ticket_description s\<rparr>])"
  by (simp add: log_result_node_def write_ticket_def write_support_log_def Let_def)

lemma log_result_status:
  "l_status (last (support_log (log_result_node s w))) =
     (if escalated_to_human s then ''escalated''
      else if user_satisfied s then ''success'' else ''failure'')"
  by (simp add: log_result_node_def write_ticket_def write_support_log_def Let_def)

text \<open>
  Claim C1, as stated, fails: a session that ends by escalation reaches the terminal logging
  stage with \<open>escalated_to_human\<close> set and \<open>user_satisfied\<close> unset, and a ticket is written
  for it. In the session below every oracle call fails, nothing is retrieved and no document
  is on disk; after 15 nodes it stands at the terminal logging stage, escalated, with no
  ticket yet, and the 16th node writes one.
\<close>

theorem ticket_written_for_escalated_session:
  "node_of (exec (replicate 15 quiet) (start ''c'')) = LogResult \<and>
   escalated_to_human (state_of (exec (replicate 15 quiet) (start ''c''))) \<and>
   tickets (world_of (exec (replicate 15 quiet) (start ''c''))) = [] \<and>
   node_of (exec (replicate 16 quiet) (start ''c'')) = END \<and>
   length (tickets (world_of (exec (replicate 16 quiet) (start ''c'')))) = 1 \<and>
   l_status (last (support_log (world_of (exec (replicate 16 quiet) (start ''c''))))) =
     ''escalated''"
  by code_simp

text \<open>
  Claim C1, amended. The terminal logging stage writes a ticket if and only if
  \<open>user_satisfied\<close> is false, whether or not the session was escalated. A session that
  reaches that stage escalated has never collected feedback, so \<open>user_satisfied\<close> is false:
  exactly one ticket is written for it, carrying the escalated flag, while the outcome
  status logged is "escalated".
\<close>

theorem ticket_written_iff_user_not_satisfied:
  "tickets (log_result_node s w) =
     (if user_satisfied s then tickets w
      else tickets w @
           [\<lparr>k_chat_id = chat_id s, k_product = product_name s,
             k_question = classified_question s, k_answer_given = final_answer s,
             k_escalated = escalated_to_human s, k_description = ticket_description s\<rparr>]) \<and>
   (exec xs (start cid) = (LogResult, s', w') \<and> escalated_to_human s' \<longrightarrow>
      \<not> user_satisfied s' \<and>
      step x (LogResult, s', w') = (END, s', log_result_node s' w') \<and>
      tickets (log_result_node s' w') =
        tickets w' @
          [\<lparr>k_chat_id = chat_id s', k_product = product_name s',
            k_question = classified_question s', k_answer_given = final_answer s',
            k_escalated = True, k_description = ticket_description s'\<rparr>] \<and>
      l_status (last (support_log (log_result_node s' w'))) = ''escalated'')"
proof (intro conjI impI)
  show "tickets (log_result_node s w) =
     (if user_satisfied s then tickets w
      else tickets w @
           [\<lparr>k_chat_id = chat_id s, k_product = product_name s,
             k_question = classified_question s, k_answer_given = final_answer s,
             k_escalated = escalated_to_human s, k_description = ticket_description s\<rparr>])"
    by (rule log_result_tickets)
next
  assume h: "exec xs (start cid) = (LogResult, s', w') \<and> escalated_to_human s'"
  then show n: "\<not> user_satisfied s'"
    using escalated_at_log_result by blast
  show "step x (LogResult, s', w') = (END, s', log_result_node s' w')"
    by simp
  from h n show "tickets (log_result_node s' w') =
        tickets w' @
          [\<lparr>k_chat_id = chat_id s', k_product = product_name s',
            k_question = classified_question s', k_answer_given = final_answer s',
            k_escalated = True, k_description = ticket_description s'\<rparr>]"
    by (simp add: log_result_tickets)
  from h show "l_status (last (support_log (log_result_node s' w'))) = ''escalated''"
    by (simp add: log_result_status)
qed

theorem ticket_written_iff_user_not_satisfied_witness:
  "exec (replicate 15 quiet) (start ''c'') =
     (LogResult, state_of (exec (replicate 15 quiet) (start ''c'')),
      world_of (exec (replicate 15 quiet) (start ''c''))) \<and>
   escalated_to_human (state_of (exec (replicate 15 quiet) (start ''c''))) \<and>
   \<not> user_satisfied (state_of (exec (replicate 15 quiet) (start ''c''))) \<and>
   l_status (last (support_log
      (log_result_node (state_of (exec (replicate 15 quiet) (start ''c'')))
         (world_of (exec (replicate 15 quiet) (start ''c'')))))) = ''escalated''"
proof -
  let ?c = "exec (replicate 15 quiet) (start ''c'')"
  have n: "node_of ?c = LogResult" by code_simp
  have e: "escalated_to_human (state_of ?c)" by code_simp
  have h: "?c = (LogResult, state_of ?c, world_of ?c) \<and> escalated_to_human (state_of ?c)"
    using n e by (simp add: prod_eq_iff)
  note T = ticket_written_iff_user_not_satisfied
             [where xs = "replicate 15 quiet" and cid = "''c''" and s' = "state_of ?c"
                and w' = "world_of ?c", THEN conjunct2]
  from T h have "\<not> user_satisfied (state_of ?c) \<and>
      step undefined (LogResult, state_of ?c, world_of ?c) =
        (END, state_of ?c, log_result_node (state_of ?c) (world_of ?c)) \<and>
      tickets (log_result_node (state_of ?c) (world_of ?c)) =
        tickets (world_of ?c) @
          [\<lparr>k_chat_id = chat_id (state_of ?c), k_product = product_name (state_of ?c),
            k_question = classified_question (state_of ?c),
            k_answer_given = final_answer (state_of ?c),
            k_escalated = True, k_description = ticket_description (state_of ?c)\<rparr>] \<and>
      l_status (last (support_log (log_result_node (state_of ?c) (world_of ?c)))) =
        ''escalated''"
    by (rule mp)
  with h show ?thesis by blast
qed

text \<open>
  Claim C9. When the feedback oracle answers and classifies the closing input as uncertain,
  the feedback collector records \<open>user_satisfied = True\<close> and \<open>feedback_uncertain = True\<close>; the
  collector only runs in sessions that were not escalated, so the terminal logging stage that
  follows logs the status "success" and writes no ticket.
\<close>

theorem uncertain_feedback_is_success_without_ticket:
  assumes "exec xs (start cid) = (CollectFeedback, s, w)"
      and "classifies_uncertain (x_feedback x)"
  shows "node_of (exec (xs @ [x, y]) (start cid)) = END \<and>
         user_satisfied (state_of (exec (xs @ [x, y]) (start cid))) \<and>
         feedback_uncertain (state_of (exec (xs @ [x, y]) (start cid))) \<and>
         l_status (last (support_log (world_of (exec (xs @ [x, y]) (start cid))))) =
           ''success'' \<and>
         tickets (world_of (exec (xs @ [x, y]) (start cid))) = tickets w"
proof -
  from assms(1) have ne: "\<not> escalated_to_human s"
    by (rule not_escalated_at_collect_feedback)
  let ?s = "feedback_collector_node (x_line x) (x_feedback x) s"
  from assms(2) have u: "user_satisfied ?s \<and> feedback_uncertain ?s"
    by (auto simp: classifies_uncertain_def feedback_collector_node_def split: option.splits)
  from ne have e: "\<not> escalated_to_human ?s"
    by (simp add: feedback_collector_node_def split: option.splits)
  have r: "exec (xs @ [x, y]) (start cid) =
             (END, ?s, log_result_node ?s (nap (x_feedback x) w))"
    by (simp add: exec_append assms(1))
  have t: "tickets (nap (x_feedback x) w) = tickets w"
    by (simp add: nap_def)
  from u e t show ?thesis
    unfolding r by (simp add: log_result_tickets log_result_status)
qed

theorem uncertain_feedback_is_success_without_ticket_witness:
  "classifies_uncertain (x_feedback helpful) \<and>
   node_of (exec (replicate 8 helpful @ [helpful, helpful]) (start ''c'')) = END \<and>
   user_satisfied (state_of (exec (replicate 8 helpful @ [helpful, helpful]) (start ''c''))) \<and>
   feedback_uncertain
     (state_of (exec (replicate 8 helpful @ [helpful, helpful]) (start ''c''))) \<and>
   l_status (last (support_log
     (world_of (exec (replicate 8 helpful @ [helpful, helpful]) (start ''c''))))) =
       ''success'' \<and>
   tickets (world_of (exec (replicate 8 helpful @ [helpful, helpful]) (start ''c''))) = []"
proof -
  let ?c = "exec (replicate 8 helpful) (start ''c'')"
  have n: "node_of ?c = CollectFeedback" by code_simp
  have h1: "?c = (CollectFeedback, state_of ?c, world_of ?c)"
    using n by (simp add: prod_eq_iff)
  have h2: "classifies_uncertain (x_feedback helpful)" by code_simp
  have t: "tickets (world_of ?c) = []" by code_simp
  from uncertain_feedback_is_success_without_ticket [OF h1 h2, of helpful] h2 t
  show ?thesis by simp
qed

section \<open>The final answer\<close>

lemma answer_inv_start: "answer_inv (start cid)"
  by (simp add: start_def)

lemma answer_inv_step:
  "answers_with_text (x_formulator x) \<Longrightarrow> answer_inv c \<Longrightarrow> answer_inv (step x c)"
proof -
  obtain n s w where c: "c = (n, s, w)" by (cases c)
  assume "answers_with_text (x_formulator x)" "answer_inv c"
  with c show ?thesis
    by (cases n)
       (auto simp: Let_def answers_with_text_def apology_def notice_def
          product_selector_node_def information_gatherer_node_def
          ask_user_for_details_node_def rag_retriever_node_def quality_checker_node_def
          answer_formulator_node_def present_answer_node_def escalate_node_def
          present_fallback_answer_node_def ask_for_clarification_node_def
          clarification_assessor_node_def feedback_collector_node_def
          route_after_gatherer_def route_after_quality_checker_def
          route_after_present_answer_def route_after_clarification_def
          route_after_clarification_assessor_def route_after_log_pre_feedback_def
          route_after_pdf_fallback_def pdf_fallback_answer split_beta
          split: option.splits if_splits)
qed

lemma answer_inv_exec:
  "\<forall>x\<in>set xs. answers_with_text (x_formulator x) \<Longrightarrow> answer_inv c \<Longrightarrow>
   answer_inv (exec xs c)"
  by (induction xs arbitrary: c) (simp_all add: answer_inv_step)

text \<open>
  Claim C8, as stated, fails: the answer formulator copies the oracle's answer into
  \<open>final_answer\<close> unchecked, and the schema allows an answer with no text. In the session below
  every oracle answers at once, the formulator with an empty answer; after 9 nodes the session
  stands at the terminal logging stage with an empty \<open>final_answer\<close>.
\<close>

theorem empty_answer_reaches_terminal_stage:
  "node_of (exec (replicate 9 mute) (start ''c'')) = LogResult \<and>
   final_answer (state_of (exec (replicate 9 mute) (start ''c''))) = [] \<and>
   \<not> escalated_to_human (state_of (exec (replicate 9 mute) (start ''c''))) \<and>
   \<not> pdf_fallback_used (state_of (exec (replicate 9 mute) (start ''c'')))"
  by code_simp

text \<open>
  Claim C8, amended. In every session in which each answer returned by the formulator oracle
  has some text, \<open>final_answer\<close> is a non-empty string when the loop stands at the terminal
  logging stage (and when it has ended), whether the answer came from retrieval, from the
  document fallback or from escalation.
\<close>

theorem final_answer_nonempty_at_terminal_stage:
  assumes "\<forall>x\<in>set xs. answers_with_text (x_formulator x)"
      and "node_of (exec xs (start cid)) = LogResult \<or> node_of (exec xs (start cid)) = END"
  shows "final_answer (state_of (exec xs (start cid))) \<noteq> []"
proof -
  obtain n s w where c: "exec xs (start cid) = (n, s, w)"
    by (cases "exec xs (start cid)")
  from answer_inv_exec [OF assms(1) answer_inv_start, of cid]
  have "answer_inv (n, s, w)" by (simp add: c)
  with assms(2) c show ?thesis by auto
qed

theorem final_answer_nonempty_at_terminal_stage_witness:
  "answers_with_text (x_formulator helpful) \<and>
   node_of (exec (replicate 9 helpful) (start ''c'')) = LogResult \<and>
   final_answer (state_of (exec (replicate 9 helpful) (start ''c''))) \<noteq> []"
proof -
  have a: "answers_with_text (x_formulator helpful)" by code_simp
  then have h1: "\<forall>x\<in>set (replicate 9 helpful). answers_with_text (x_formulator x)"
    by simp
  have h2: "node_of (exec (replicate 9 helpful) (start ''c'')) = LogResult" by code_simp
  then have h3: "node_of (exec (replicate 9 helpful) (start ''c'')) = LogResult \<or>
                 node_of (exec (replicate 9 helpful) (start ''c'')) = END"
    by (rule disjI1)
  from final_answer_nonempty_at_terminal_stage [OF h1 h3] a h2 show ?thesis
    by (intro conjI)
qed

section \<open>The gathering loop\<close>

lemma past_gathering_step: "past_gathering c \<Longrightarrow> past_gathering (step x c)"
proof -
  obtain n s w where c: "c = (n, s, w)" by (cases c)
  assume "past_gathering c"
  with c show ?thesis
    by (cases n)
       (auto simp: Let_def route_after_quality_checker_def route_after_present_answer_def
          route_after_clarification_def route_after_clarification_assessor_def
          route_after_log_pre_feedback_def route_after_pdf_fallback_def)
qed

lemma past_gathering_trace:
  "past_gathering c \<Longrightarrow> AskUserForDetails \<notin> set (trace xs c)"
proof (induction xs arbitrary: c)
  case Nil
  then show ?case by simp
next
  case (Cons x xs)
  from Cons.prems have "fst c \<noteq> AskUserForDetails" by (cases c) auto
  moreover from Cons.prems have "past_gathering (step x c)" by (rule past_gathering_step)
  ultimately show ?case using Cons.IH by simp
qed

lemma insufficient_round:
  assumes "reports_insufficient (x_gatherer x)"
  shows "step x (InformationGatherer, s, w) =
           (if gatherer_attempts s + 1 \<ge> MAX_GATHERER_ATTEMPTS then RagRetriever
            else AskUserForDetails,
            information_gatherer_node (x_gatherer x) s, nap (x_gatherer x) w)"
    and "gatherer_attempts (information_gatherer_node (x_gatherer x) s) =
           gatherer_attempts s + 1"
    and "classified_question (information_gatherer_node (x_gatherer x) s) =
           classified_question s"
  using assms
  by (auto simp: reports_insufficient_def information_gatherer_node_def
        route_after_gatherer_def Let_def split: option.splits)

lemma ask_round:
  "gatherer_attempts (ask_user_for_details_node l s) = gatherer_attempts s"
  "classified_question (ask_user_for_details_node l s) = classified_question s"
  by (simp_all add: ask_user_for_details_node_def)

lemma six_elements:
  assumes "length xs = 6"
  obtains a b c d e f where "xs = [a, b, c, d, e, f]"
proof -
  from assms obtain a xs1 where 1: "xs = a # xs1" "length xs1 = 5"
    by (cases xs) auto
  then obtain b xs2 where 2: "xs1 = b # xs2" "length xs2 = 4" by (cases xs1) auto
  then obtain c xs3 where 3: "xs2 = c # xs3" "length xs3 = 3" by (cases xs2) auto
  then obtain d xs4 where 4: "xs3 = d # xs4" "length xs4 = 2" by (cases xs3) auto
  then obtain e xs5 where 5: "xs4 = e # xs5" "length xs5 = 1" by (cases xs4) auto
  then obtain f where 6: "xs5 = [f]" by (cases xs5) auto
  from 1 2 3 4 5 6 have "xs = [a, b, c, d, e, f]" by simp
  then show thesis by (rule that)
qed

text \<open>
  Claim C3, as stated, fails: with a gatherer oracle that always reports insufficient
  information the gatherer runs three times, but the follow-up stage runs after the first
  and the second run only, since the third run brings \<open>gatherer_attempts\<close> to the ceiling.
  In the session below the retrieve stage is reached after 6 nodes, of which 2 are the
  follow-up stage.
\<close>

theorem follow_up_stage_runs_twice_not_thrice:
  "reports_insufficient (x_gatherer vague) \<and>
   node_of (exec (replicate 6 vague) (start ''c'')) = RagRetriever \<and>
   trace (replicate 6 vague) (start ''c'') =
     [ProductSelector, InformationGatherer, AskUserForDetails, InformationGatherer,
      AskUserForDetails, InformationGatherer] \<and>
   count_list (trace (replicate 6 vague) (start ''c'')) AskUserForDetails \<noteq> 3"
  by code_simp

text \<open>
  Claim C3, amended. In a session where the gatherer oracle always reports insufficient
  information, the gatherer runs exactly 3 times and the follow-up stage exactly 2 times;
  the loop then proceeds to the retrieve stage with \<open>gatherer_attempts = 3\<close> and the
  classified question still empty, and the follow-up stage never runs again in that session.
\<close>

theorem follow_up_stage_runs_exactly_twice:
  assumes "length xs = 6"
      and "\<forall>x\<in>set xs. reports_insufficient (x_gatherer x)"
  shows "trace xs (start cid) =
           [ProductSelector, InformationGatherer, AskUserForDetails, InformationGatherer,
            AskUserForDetails, InformationGatherer] \<and>
         count_list (trace xs (start cid)) AskUserForDetails = 2 \<and>
         count_list (trace xs (start cid)) InformationGatherer = 3 \<and>
         node_of (exec xs (start cid)) = RagRetriever \<and>
         gatherer_attempts (state_of (exec xs (start cid))) = 3 \<and>
         classified_question (state_of (exec xs (start cid))) = [] \<and>
         AskUserForDetails \<notin> set (trace ys (exec xs (start cid)))"
proof -
  from assms(1) obtain a b c d e f where xs: "xs = [a, b, c, d, e, f]"
    by (rule six_elements)
  with assms(2) have ins: "reports_insufficient (x_gatherer b)"
    "reports_insufficient (x_gatherer d)" "reports_insufficient (x_gatherer f)"
    by simp_all
  define s1 where "s1 = product_selector_node (x_slug a) (x_line a) (initial_state cid)"
  define s2 where "s2 = information_gatherer_node (x_gatherer b) s1"
  define s3 where "s3 = ask_user_for_details_node (x_line c) s2"
  define s4 where "s4 = information_gatherer_node (x_gatherer d) s3"
  define s5 where "s5 = ask_user_for_details_node (x_line e) s4"
  define s6 where "s6 = information_gatherer_node (x_gatherer f) s5"
  have g1: "gatherer_attempts s1 = 0" "classified_question s1 = []"
    by (simp_all add: s1_def product_selector_node_def initial_state_def)
  have g2: "gatherer_attempts s2 = 1" "classified_question s2 = []"
    using insufficient_round(2,3) [OF ins(1), of s1] g1 by (simp_all add: s2_def)
  have g3: "gatherer_attempts s3 = 1" "classified_question s3 = []"
    using g2 by (simp_all add: s3_def ask_round)
  have g4: "gatherer_attempts s4 = 2" "classified_question s4 = []"
    using insufficient_round(2,3) [OF ins(2), of s3] g3 by (simp_all add: s4_def)
  have g5: "gatherer_attempts s5 = 2" "classified_question s5 = []"
    using g4 by (simp_all add: s5_def ask_round)
  have g6: "gatherer_attempts s6 = 3" "classified_question s6 = []"
    using insufficient_round(2,3) [OF ins(3), of s5] g5 by (simp_all add: s6_def)
  obtain w0 where c0: "start cid = (ProductSelector, initial_state cid, w0)"
    by (simp add: start_def)
  have n0: "fst (start cid) = ProductSelector"
    by (simp add: c0)
  have c1: "step a (start cid) = (InformationGatherer, s1, w0)"
    by (simp add: c0 s1_def)
  have c2: "step b (InformationGatherer, s1, w0) =
              (AskUserForDetails, s2, nap (x_gatherer b) w0)"
    using insufficient_round(1) [OF ins(1), of s1 w0] g1
    by (simp add: s2_def MAX_GATHERER_ATTEMPTS_def)
  have c3: "step c (AskUserForDetails, s2, nap (x_gatherer b) w0) =
              (InformationGatherer, s3, nap (x_gatherer b) w0)"
    by (simp add: s3_def)
  have c4: "step d (InformationGatherer, s3, nap (x_gatherer b) w0) =
              (AskUserForDetails, s4, nap (x_gatherer d) (nap (x_gatherer b) w0))"
    using insufficient_round(1) [OF ins(2), of s3 "nap (x_gatherer b) w0"] g3
    by (simp add: s4_def MAX_GATHERER_ATTEMPTS_def)
  have c5: "step e (AskUserForDetails, s4, nap (x_gatherer d) (nap (x_gatherer b) w0)) =
              (InformationGatherer, s5, nap (x_gatherer d) (nap (x_gatherer b) w0))"
    by (simp add: s5_def)
  have c6: "step f (InformationGatherer, s5, nap (x_gatherer d) (nap (x_gatherer b) w0)) =
              (RagRetriever, s6,
               nap (x_gatherer f) (nap (x_gatherer d) (nap (x_gatherer b) w0)))"
    using insufficient_round(1)
            [OF ins(3), of s5 "nap (x_gatherer d) (nap (x_gatherer b) w0)"] g5
    by (simp add: s6_def MAX_GATHERER_ATTEMPTS_def)
  have tr: "trace xs (start cid) =
           [ProductSelector, InformationGatherer, AskUserForDetails, InformationGatherer,
            AskUserForDetails, InformationGatherer]"
    unfolding xs by (simp add: n0 c1 c2 c3 c4 c5 c6 del: step.simps)
  have ex: "exec xs (start cid) =
              (RagRetriever, s6,
               nap (x_gatherer f) (nap (x_gatherer d) (nap (x_gatherer b) w0)))"
    unfolding xs by (simp add: c1 c2 c3 c4 c5 c6 del: step.simps)
  have pg: "past_gathering (exec xs (start cid))"
    by (simp add: ex)
  have never: "AskUserForDetails \<notin> set (trace ys (exec xs (start cid)))"
    using pg by (rule past_gathering_trace)
  from g6 never show ?thesis
    unfolding tr by (simp add: ex)
qed

theorem follow_up_stage_runs_exactly_twice_witness:
  "length (replicate 6 vague) = 6 \<and>
   reports_insufficient (x_gatherer vague) \<and>
   count_list (trace (replicate 6 vague) (start ''c'')) AskUserForDetails = 2 \<and>
   node_of (exec (replicate 6 vague) (start ''c'')) = RagRetriever \<and>
   gatherer_attempts (state_of (exec (replicate 6 vague) (start ''c''))) = 3"
proof -
  have h1: "length (replicate 6 vague) = 6" by simp
  have v: "reports_insufficient (x_gatherer vague)" by code_simp
  then have h2: "\<forall>x\<in>set (replicate 6 vague). reports_insufficient (x_gatherer x)"
    by simp
  from follow_up_stage_runs_exactly_twice [OF h1 h2, of "''c''" "[]"] h1 v
  show ?thesis by simp
qed

section \<open>A formulator that fails\<close>








section \<open>Extraction of pages\<close>

lemma extract_parts_eq:
  "extract_parts doc page_numbers parts =
     parts @ map (page_block doc) (pages_taken doc page_numbers)"
  by (induction page_numbers arbitrary: parts)
     (simp_all add: pages_taken_def has_text_def page_block_def Let_def)

lemma extract_pages_text_eq:
  "extract_pages_text doc page_numbers =
     join [NL, NL] (map (page_block doc) (pages_taken doc page_numbers))"
  by (simp add: extract_pages_text_def extract_parts_eq)

lemma pages_taken_all:
  "pages_taken doc [1..get_page_count doc] =
     filter (\<lambda>p. \<not> strip_is_empty (doc ! nat (p - 1))) [1..get_page_count doc]"
  unfolding pages_taken_def
  by (rule filter_cong) (auto simp: has_text_def get_page_count_def)

lemma length_pages_taken: "length (pages_taken doc page_numbers) \<le> length page_numbers"
  by (simp add: pages_taken_def)

lemma page_block_visible: "\<not> strip_is_empty (page_block doc p @ rest)"
  by (simp add: strip_is_empty_def page_block_def is_space_def)

lemma join_blocks_empty:
  "strip_is_empty (join sep (map (page_block doc) ps)) \<longleftrightarrow> ps = []"
proof (cases ps)
  case Nil
  then show ?thesis by (simp add: strip_is_empty_def)
next
  case (Cons p ps')
  have "\<not> strip_is_empty (join sep (page_block doc p # map (page_block doc) ps'))"
    using page_block_visible [of doc p] page_block_visible [of doc p "[]"]
    by (cases ps') simp_all
  with Cons show ?thesis by simp
qed

lemma extraction_empty_iff:
  "strip_is_empty (extract_pages_text doc page_numbers) \<longleftrightarrow>
   pages_taken doc page_numbers = []"
  by (simp add: extract_pages_text_eq join_blocks_empty)

text \<open>
  Claim C6. When the document resolved for the fallback has at most 10 pages, the miner runs
  the extraction over all the pages 1..page_count: the text returned holds, in order, one
  block per page that has visible text (a page of white space only adds nothing). When that
  text is not empty the fallback succeeds with an answer made of the fixed introduction, the
  source locator, the line "Pages: all (N pages)" and the text, and the loop goes on to
  present it; when it is empty (no page has visible text) the fallback reports failure and
  the loop routes to escalation, although the document was found.
\<close>

theorem small_document_is_extracted_whole:
  assumes "get_most_frequent_pdf_url (rag_history s) = Some pdf_url"
      and "find_pdf_on_disk (x_disk x) pdf_url = Some doc"
      and "get_page_count doc \<le> PDF_TOC_PAGE_THRESHOLD"
  shows "PDF_TOC_PAGE_THRESHOLD = 10 \<and>
         extract_pages_text doc [1..get_page_count doc] =
           join [NL, NL]
             (map (page_block doc)
                (filter (\<lambda>p. \<not> strip_is_empty (doc ! nat (p - 1)))
                   [1..get_page_count doc])) \<and>
         (if strip_is_empty (extract_pages_text doc [1..get_page_count doc])
          then pdf_fallback_node (x_disk x) (x_toc x) s = s\<lparr>pdf_fallback_used := False\<rparr> \<and>
               node_of (step x (PdfFallback, s, w)) = Escalate
          else pdf_fallback_node (x_disk x) (x_toc x) s =
                 s\<lparr>pdf_fallback_used := True,
                   final_answer :=
                     ''We could not find an exact answer to your query after multiple '' @
                     ''search attempts, but the following document may contain useful '' @
                     ''information.'' @ [NL, NL] @
                     ''Source: '' @ pdf_url @ [NL] @
                     ''Pages: all ('' @ str_int (get_page_count doc) @ '' pages)'' @
                     [NL, NL] @ extract_pages_text doc [1..get_page_count doc],
                   messages := messages s @
                     [(AI,
                       ''We could not find an exact answer to your query after multiple '' @
                       ''search attempts, but the following document may contain useful '' @
                       ''information.'' @ [NL, NL] @
                       ''Source: '' @ pdf_url @ [NL] @
                       ''Pages: all ('' @ str_int (get_page_count doc) @ '' pages)'' @
                       [NL, NL] @ extract_pages_text doc [1..get_page_count doc])]\<rparr> \<and>
               node_of (step x (PdfFallback, s, w)) = PresentFallbackAnswer)"
proof -
  have a: "extract_pages_text doc [1..get_page_count doc] =
           join [NL, NL]
             (map (page_block doc)
                (filter (\<lambda>p. \<not> strip_is_empty (doc ! nat (p - 1)))
                   [1..get_page_count doc]))"
    by (simp add: extract_pages_text_eq pages_taken_all)
  have b: "pdf_fallback_node (x_disk x) (x_toc x) s = s\<lparr>pdf_fallback_used := False\<rparr>"
    if "strip_is_empty (extract_pages_text doc [1..get_page_count doc])"
    using that assms by (simp add: pdf_fallback_node_def Let_def)
  have c: "pdf_fallback_node (x_disk x) (x_toc x) s =
             s\<lparr>pdf_fallback_used := True,
               final_answer := small_pdf_answer pdf_url (get_page_count doc)
                  (extract_pages_text doc [1..get_page_count doc]),
               messages := messages s @
                 [(AI, small_pdf_answer pdf_url (get_page_count doc)
                         (extract_pages_text doc [1..get_page_count doc]))]\<rparr>"
    if "\<not> strip_is_empty (extract_pages_text doc [1..get_page_count doc])"
    using that assms by (simp add: pdf_fallback_node_def Let_def)
  have d: "node_of (step x (PdfFallback, s, w)) =
             route_after_pdf_fallback (pdf_fallback_node (x_disk x) (x_toc x) s)"
    by (simp add: Let_def)
  show ?thesis
  proof (cases "strip_is_empty (extract_pages_text doc [1..get_page_count doc])")
    case True
    with a b d show ?thesis
      by (simp add: route_after_pdf_fallback_def PDF_TOC_PAGE_THRESHOLD_def
            del: step.simps)
  next
    case False
    with a c d show ?thesis
      by (simp add: route_after_pdf_fallback_def PDF_TOC_PAGE_THRESHOLD_def
            small_pdf_answer_def del: step.simps)
  qed
qed

theorem small_document_is_extracted_whole_witness:
  "get_most_frequent_pdf_url (rag_history cited) = Some manual_url \<and>
   find_pdf_on_disk (shelf leaflet) manual_url = Some leaflet \<and>
   get_page_count leaflet \<le> PDF_TOC_PAGE_THRESHOLD \<and>
   extract_pages_text leaflet [1..get_page_count leaflet] =
     ''--- Page 1 ---'' @ [NL] @ ''Hold the power button.'' @ [NL, NL] @
     ''--- Page 3 ---'' @ [NL] @ ''Reseat the memory.'' \<and>
   node_of (step (quiet\<lparr>x_disk := shelf leaflet\<rparr>)
              (PdfFallback, cited, \<lparr>support_log = [], tickets = [], slept = []\<rparr>)) =
     PresentFallbackAnswer"
proof -
  have h1: "get_most_frequent_pdf_url (rag_history cited) = Some manual_url" by code_simp
  have h2: "find_pdf_on_disk (x_disk (quiet\<lparr>x_disk := shelf leaflet\<rparr>)) manual_url =
              Some leaflet"
    by code_simp
  have h2': "find_pdf_on_disk (shelf leaflet) manual_url = Some leaflet" by code_simp
  have h3: "get_page_count leaflet \<le> PDF_TOC_PAGE_THRESHOLD" by code_simp
  have e: "extract_pages_text leaflet [1..get_page_count leaflet] =
     ''--- Page 1 ---'' @ [NL] @ ''Hold the power button.'' @ [NL, NL] @
     ''--- Page 3 ---'' @ [NL] @ ''Reseat the memory.''"
    by code_simp
  have v: "\<not> strip_is_empty (extract_pages_text leaflet [1..get_page_count leaflet])"
    by code_simp
  note T = small_document_is_extracted_whole
             [OF h1 h2 h3, of "\<lparr>support_log = [], tickets = [], slept = []\<rparr>"]
  from T v have "node_of (step (quiet\<lparr>x_disk := shelf leaflet\<rparr>)
              (PdfFallback, cited, \<lparr>support_log = [], tickets = [], slept = []\<rparr>)) =
     PresentFallbackAnswer"
    by (simp del: step.simps)
  with h1 h2' h3 e show ?thesis by (intro conjI)
qed

text \<open>
  Claim C7, as stated, fails: the cap of 20 pages is an instruction in the prompt sent to the
  oracle only; the node extracts every page the response lists. Below, the manual has 21
  pages, a table of contents is reported and the response lists the pages 1 to 21: the
  fallback succeeds and the text returned holds 21 page blocks.
\<close>

theorem fallback_returns_more_than_twenty_pages:
  "toc_called (shelf handbook) cited \<and>
   response (call_llm (answering toc21)) = Some toc21 \<and>
   pdf_fallback_used (pdf_fallback_node (shelf handbook) (answering toc21) cited) \<and>
   final_answer (pdf_fallback_node (shelf handbook) (answering toc21) cited) =
     large_pdf_answer manual_url ''Display'' [1..21]
       (join [NL, NL] (extract_parts handbook [1..21] [])) \<and>
   length (extract_parts handbook [1..21] []) = 21 \<and>
   \<not> length (extract_parts handbook [1..21] []) \<le> 20"
  by code_simp

text \<open>
  Claim C7, amended. In the large-document branch (page count above 10) with a table of
  contents reported, the pages extracted and returned are exactly the pages listed by the
  oracle's response that lie inside the document and have visible text, in the order
  listed; their number is at most the number of pages the response lists, hence at most 20
  whenever the response lists at most 20 pages, as the prompt asks.
\<close>

theorem fallback_returns_the_pages_the_oracle_lists:
  assumes "get_most_frequent_pdf_url (rag_history s) = Some pdf_url"
      and "find_pdf_on_disk disk pdf_url = Some doc"
      and "\<not> get_page_count doc \<le> PDF_TOC_PAGE_THRESHOLD"
      and "\<not> strip_is_empty (extract_pages_text doc [1..PDF_TOC_PAGE_THRESHOLD])"
      and "response (call_llm t) = Some toc"
      and "t_has_toc toc"
  shows "extract_parts doc (t_relevant_pages toc) [] =
           map (page_block doc) (pages_taken doc (t_relevant_pages toc)) \<and>
         pages_taken doc (t_relevant_pages toc) =
           filter (\<lambda>p. 1 \<le> p \<and> p \<le> get_page_count doc \<and>
                        \<not> strip_is_empty (doc ! nat (p - 1)))
             (t_relevant_pages toc) \<and>
         length (pages_taken doc (t_relevant_pages toc)) \<le> length (t_relevant_pages toc) \<and>
         (if pages_taken doc (t_relevant_pages toc) = []
          then pdf_fallback_node disk t s = s\<lparr>pdf_fallback_used := False\<rparr>
          else pdf_fallback_node disk t s =
                 s\<lparr>pdf_fallback_used := True,
                   final_answer :=
                     large_pdf_answer pdf_url (t_most_relevant_section_title toc)
                       (t_relevant_pages toc)
                       (join [NL, NL]
                          (map (page_block doc) (pages_taken doc (t_relevant_pages toc)))),
                   messages := messages s @
                     [(AI, large_pdf_answer pdf_url (t_most_relevant_section_title toc)
                             (t_relevant_pages toc)
                             (join [NL, NL]
                                (map (page_block doc)
                                   (pages_taken doc (t_relevant_pages toc)))))]\<rparr>) \<and>
         (length (t_relevant_pages toc) \<le> 20 \<longrightarrow>
            length (pages_taken doc (t_relevant_pages toc)) \<le> 20)"
proof -
  have a: "extract_parts doc (t_relevant_pages toc) [] =
           map (page_block doc) (pages_taken doc (t_relevant_pages toc))"
    by (simp add: extract_parts_eq)
  have b: "pages_taken doc (t_relevant_pages toc) =
           filter (\<lambda>p. 1 \<le> p \<and> p \<le> get_page_count doc \<and>
                        \<not> strip_is_empty (doc ! nat (p - 1)))
             (t_relevant_pages toc)"
    unfolding pages_taken_def
    by (rule filter_cong) (auto simp: has_text_def get_page_count_def)
  have c: "length (pages_taken doc (t_relevant_pages toc)) \<le> length (t_relevant_pages toc)"
    by (rule length_pages_taken)
  have e: "pages_taken doc (t_relevant_pages toc) = []" if "t_relevant_pages toc = []"
    using that by (simp add: pages_taken_def)
  have d1: "pdf_fallback_node disk t s = s\<lparr>pdf_fallback_used := False\<rparr>"
    if "pages_taken doc (t_relevant_pages toc) = []"
    using that assms
    by (simp add: pdf_fallback_node_def Let_def extraction_empty_iff)
  have d2: "pdf_fallback_node disk t s =
                 s\<lparr>pdf_fallback_used := True,
                   final_answer :=
                     large_pdf_answer pdf_url (t_most_relevant_section_title toc)
                       (t_relevant_pages toc)
                       (join [NL, NL]
                          (map (page_block doc) (pages_taken doc (t_relevant_pages toc)))),
                   messages := messages s @
                     [(AI, large_pdf_answer pdf_url (t_most_relevant_section_title toc)
                             (t_relevant_pages toc)
                             (join [NL, NL]
                                (map (page_block doc)
                                   (pages_taken doc (t_relevant_pages toc)))))]\<rparr>"
    if "pages_taken doc (t_relevant_pages toc) \<noteq> []"
  proof -
    from that e have ne: "t_relevant_pages toc \<noteq> []" by blast
    from that have v: "\<not> strip_is_empty (extract_pages_text doc (t_relevant_pages toc))"
      by (simp add: extraction_empty_iff)
    from ne v assms show ?thesis
      by (simp add: pdf_fallback_node_def Let_def extract_pages_text_eq)
  qed
  from c have f: "length (t_relevant_pages toc) \<le> 20 \<longrightarrow>
            length (pages_taken doc (t_relevant_pages toc)) \<le> 20"
    by linarith
  show ?thesis
  proof (cases "pages_taken doc (t_relevant_pages toc) = []")
    case True
    from a b c f d1 [OF True] True show ?thesis by simp
  next
    case False
    from a b c f d2 [OF False] False show ?thesis by simp
  qed
qed

theorem fallback_returns_the_pages_the_oracle_lists_witness:
  "get_most_frequent_pdf_url (rag_history cited) = Some manual_url \<and>
   find_pdf_on_disk (shelf handbook) manual_url = Some handbook \<and>
   \<not> get_page_count handbook \<le> PDF_TOC_PAGE_THRESHOLD \<and>
   \<not> strip_is_empty (extract_pages_text handbook [1..PDF_TOC_PAGE_THRESHOLD]) \<and>
   response (call_llm (answering toc21)) = Some toc21 \<and>
   t_has_toc toc21 \<and>
   extract_parts handbook (t_relevant_pages toc21) [] =
     map (page_block handbook) (pages_taken handbook (t_relevant_pages toc21)) \<and>
   length (pages_taken handbook (t_relevant_pages toc21)) \<le> length (t_relevant_pages toc21)"
proof -
  have h1: "get_most_frequent_pdf_url (rag_history cited) = Some manual_url" by code_simp
  have h2: "find_pdf_on_disk (shelf handbook) manual_url = Some handbook" by code_simp
  have h3: "\<not> get_page_count handbook \<le> PDF_TOC_PAGE_THRESHOLD" by code_simp
  have h4: "\<not> strip_is_empty (extract_pages_text handbook [1..PDF_TOC_PAGE_THRESHOLD])"
    by code_simp
  have h5: "response (call_llm (answering toc21)) = Some toc21" by code_simp
  have h6: "t_has_toc toc21" by code_simp
  note T = fallback_returns_the_pages_the_oracle_lists [OF h1 h2 h3 h4 h5 h6]
  from h1 h2 h3 h4 h5 h6 T [THEN conjunct1] T [THEN conjunct2, THEN conjunct2, THEN conjunct1]
  show ?thesis by (intro conjI)
qed

section \<open>The most cited document\<close>

lemma inner_count_loop:
  "foldl (\<lambda>c u. if P u then counter_incr c u else c) c us =
   foldl counter_incr c (filter P us)"
  by (induction us arbitrary: c) simp_all

lemma count_pdf_urls_eq:
  "count_pdf_urls hist =
   foldl counter_incr [] (filter is_pdf_url (concat (map e_urls hist)))"
proof -
  have "foldl (\<lambda>c e. foldl (\<lambda>c u. if is_pdf_url u then counter_incr c u else c) c (e_urls e))
          c0 hist =
        foldl counter_incr c0 (filter is_pdf_url (concat (map e_urls hist)))" for c0
    by (induction hist arbitrary: c0) (simp_all add: inner_count_loop)
  then show ?thesis by (simp add: count_pdf_urls_def)
qed

lemma keys_counter_incr:
  "map fst (counter_incr c k) =
     (if k \<in> set (map fst c) then map fst c else map fst c @ [k])"
proof (induction c)
  case Nil
  then show ?case by simp
next
  case (Cons kv c)
  obtain k' n where kv: "kv = (k', n)" by (cases kv)
  show ?case
  proof (cases "k' = k")
    case True
    then show ?thesis by (simp add: kv)
  next
    case False
    with Cons.IH show ?thesis by (simp add: kv)
  qed
qed

lemma map_of_counter_incr:
  "map_of (counter_incr c k) k' =
     (if k' = k then Some (case map_of c k of None \<Rightarrow> 1 | Some n \<Rightarrow> n + 1)
      else map_of c k')"
  by (induction c) auto

lemma counter_keys:
  "set (map fst (foldl counter_incr [] xs)) = set xs \<and>
   distinct (map fst (foldl counter_incr [] xs))"
proof (induction xs rule: rev_induct)
  case Nil
  then show ?case by simp
next
  case (snoc x xs)
  then show ?case by (auto simp: keys_counter_incr)
qed

lemma counter_counts:
  "map_of (foldl counter_incr [] xs) k =
     (if k \<in> set xs then Some (count_list xs k) else None)"
proof (induction xs rule: rev_induct)
  case Nil
  then show ?case by simp
next
  case (snoc x xs)
  then show ?case by (auto simp: map_of_counter_incr)
qed

lemma counter_entry:
  assumes "(k, n) \<in> set (foldl counter_incr [] xs)"
  shows "k \<in> set xs \<and> n = count_list xs k"
proof -
  from counter_keys have "distinct (map fst (foldl counter_incr [] xs))" by blast
  with assms have "map_of (foldl counter_incr [] xs) k = Some n" by simp
  then show ?thesis by (simp add: counter_counts split: if_splits)
qed

lemma counter_order:
  "map fst (foldl counter_incr [] xs) = ks1 @ u # ks2 \<Longrightarrow>
   set (takeWhile (\<lambda>x. x \<noteq> u) xs) \<subseteq> set ks1"
proof (induction xs arbitrary: ks1 ks2 rule: rev_induct)
  case Nil
  then show ?case by simp
next
  case (snoc x xs)
  let ?ks = "map fst (foldl counter_incr [] xs)"
  from counter_keys [of xs] have ks: "set ?ks = set xs" by blast
  show ?case
  proof (cases "x \<in> set xs")
    case True
    with snoc.prems ks have split: "?ks = ks1 @ u # ks2"
      by (simp add: keys_counter_incr)
    then have "u \<in> set ?ks" by simp
    with ks have "u \<in> set xs" by simp
    then have "takeWhile (\<lambda>x. x \<noteq> u) (xs @ [x]) = takeWhile (\<lambda>x. x \<noteq> u) xs"
      by (simp add: takeWhile_append1)
    with snoc.IH [OF split] show ?thesis by simp
  next
    case False
    with snoc.prems ks have split: "?ks @ [x] = ks1 @ u # ks2"
      by (simp add: keys_counter_incr)
    show ?thesis
    proof (cases ks2 rule: rev_cases)
      case Nil
      with split have "?ks = ks1" "x = u" by simp_all
      moreover from False have "takeWhile (\<lambda>y. y \<noteq> x) (xs @ [x]) = xs"
        by (subst takeWhile_append2) auto
      ultimately show ?thesis using ks by auto
    next
      case (snoc ks2' y)
      with split have s: "?ks = ks1 @ u # ks2'" by simp
      then have "u \<in> set ?ks" by simp
      with ks have "u \<in> set xs" by simp
      then have "takeWhile (\<lambda>x. x \<noteq> u) (xs @ [x]) = takeWhile (\<lambda>x. x \<noteq> u) xs"
        by (simp add: takeWhile_append1)
      with snoc.IH [OF s] show ?thesis by simp
    qed
  qed
qed

lemma max_by_count_upper:
  "\<forall>kv\<in>set (best # c). snd kv \<le> snd (max_by_count best c)"
proof (induction c arbitrary: best)
  case Nil
  then show ?case by simp
next
  case (Cons kv kvs)
  have 1: "\<forall>e\<in>set ((if snd best < snd kv then kv else best) # kvs).
             snd e \<le> snd (max_by_count best (kv # kvs))"
    using Cons.IH [of "if snd best < snd kv then kv else best"] by simp
  then have "snd (if snd best < snd kv then kv else best) \<le>
               snd (max_by_count best (kv # kvs))"
    by simp
  then have "snd best \<le> snd (max_by_count best (kv # kvs)) \<and>
             snd kv \<le> snd (max_by_count best (kv # kvs))"
    by (auto split: if_splits)
  with 1 show ?case by auto
qed

lemma max_by_count_first:
  "\<exists>pre post. best # c = pre @ max_by_count best c # post \<and>
      (\<forall>kv\<in>set pre. snd kv < snd (max_by_count best c))"
proof (induction c arbitrary: best)
  case Nil
  have "[best] = [] @ max_by_count best [] # []" by simp
  then show ?case by fastforce
next
  case (Cons kv kvs)
  show ?case
  proof (cases "snd best < snd kv")
    case True
    then have m: "max_by_count best (kv # kvs) = max_by_count kv kvs" by simp
    from Cons.IH [of kv] obtain pre post where
      p: "kv # kvs = pre @ max_by_count kv kvs # post"
         "\<forall>e\<in>set pre. snd e < snd (max_by_count kv kvs)"
      by blast
    from max_by_count_upper [of kv kvs] have "snd kv \<le> snd (max_by_count kv kvs)" by simp
    with True have "snd best < snd (max_by_count kv kvs)" by simp
    with p have "best # kv # kvs = (best # pre) @ max_by_count kv kvs # post \<and>
                 (\<forall>e\<in>set (best # pre). snd e < snd (max_by_count kv kvs))"
      by simp
    then show ?thesis unfolding m by blast
  next
    case False
    then have m: "max_by_count best (kv # kvs) = max_by_count best kvs" by simp
    from Cons.IH [of best] obtain pre post where
      p: "best # kvs = pre @ max_by_count best kvs # post"
         "\<forall>e\<in>set pre. snd e < snd (max_by_count best kvs)"
      by blast
    show ?thesis
    proof (cases pre)
      case Nil
      from p(1) [unfolded Nil append_Nil]
      have e: "max_by_count best kvs = best"
        by (rule list.inject [THEN iffD1, THEN conjunct1, symmetric])
      have "best # kv # kvs = [] @ best # (kv # kvs) \<and>
            (\<forall>e\<in>set []. snd e < snd best)"
        by simp
      then show ?thesis unfolding m e by blast
    next
      case (Cons b pre')
      note inj = p(1) [unfolded Cons append_Cons, THEN list.inject [THEN iffD1]]
      have b: "b = best" by (rule inj [THEN conjunct1, symmetric])
      have k: "kvs = pre' @ max_by_count best kvs # post" by (rule inj [THEN conjunct2])
      from p(2) [unfolded Cons] b
      have lt: "snd best < snd (max_by_count best kvs)"
               "\<forall>e\<in>set pre'. snd e < snd (max_by_count best kvs)"
        by simp_all
      from lt(1) False have kvlt: "snd kv < snd (max_by_count best kvs)" by simp
      have eq: "best # kv # kvs = (best # kv # pre') @ max_by_count best kvs # post"
        unfolding append_Cons by (rule arg_cong [OF k])
      from lt kvlt
      have all: "\<forall>e\<in>set (best # kv # pre'). snd e < snd (max_by_count best kvs)"
        by simp
      from eq all show ?thesis unfolding m by blast
    qed
  qed
qed

lemma counter_empty: "foldl counter_incr [] xs = [] \<longleftrightarrow> xs = []"
proof
  assume a: "foldl counter_incr [] xs = []"
  from counter_keys [of xs]
  have "set xs = set (map fst (foldl counter_incr [] xs))" by simp
  also from a have "\<dots> = {}" by simp
  finally show "xs = []" by simp
next
  assume "xs = []"
  then show "foldl counter_incr [] xs = []" by simp
qed

lemma most_frequent_none:
  "get_most_frequent_pdf_url hist = None \<longleftrightarrow>
   filter is_pdf_url (concat (map e_urls hist)) = []"
  by (simp add: get_most_frequent_pdf_url_def Let_def count_pdf_urls_eq counter_empty)

lemma most_frequent_some:
  assumes "get_most_frequent_pdf_url hist = Some u"
  defines "pdfs \<equiv> filter is_pdf_url (concat (map e_urls hist))"
  shows "u \<in> set pdfs"
    and "\<forall>v\<in>set pdfs. count_list pdfs v \<le> count_list pdfs u"
    and "\<forall>v\<in>set (takeWhile (\<lambda>x. x \<noteq> u) pdfs). count_list pdfs v < count_list pdfs u"
proof -
  let ?c = "foldl counter_incr [] pdfs"
  have ceq: "count_pdf_urls hist = ?c" by (simp add: count_pdf_urls_eq pdfs_def)
  from assms(1) have ne: "?c \<noteq> []"
    by (simp add: get_most_frequent_pdf_url_def Let_def ceq split: if_splits)
  then obtain b c where bc: "?c = b # c" by (cases ?c) auto
  define m where "m = max_by_count b c"
  from assms(1) have u: "u = fst m"
    by (simp add: get_most_frequent_pdf_url_def Let_def ceq bc most_common_1_def m_def
          split: if_splits)
  from max_by_count_first [of b c] obtain pre post where
    sp: "b # c = pre @ m # post" and lt: "\<forall>kv\<in>set pre. snd kv < snd m"
    unfolding m_def by blast
  from sp bc have min: "m \<in> set ?c" by simp
  then have "(fst m, snd m) \<in> set ?c" by simp
  from counter_entry [OF this] u have um: "u \<in> set pdfs" "snd m = count_list pdfs u"
    by simp_all
  show "u \<in> set pdfs" by (rule um(1))
  show "\<forall>v\<in>set pdfs. count_list pdfs v \<le> count_list pdfs u"
  proof
    fix v assume "v \<in> set pdfs"
    with counter_keys [of pdfs] have "v \<in> set (map fst ?c)" by simp
    then obtain n where vn: "(v, n) \<in> set ?c" by auto
    from counter_entry [OF vn] have n: "n = count_list pdfs v" by simp
    from max_by_count_upper [of b c] vn bc have "n \<le> snd m"
      unfolding m_def by fastforce
    with n um(2) show "count_list pdfs v \<le> count_list pdfs u" by simp
  qed
  show "\<forall>v\<in>set (takeWhile (\<lambda>x. x \<noteq> u) pdfs). count_list pdfs v < count_list pdfs u"
  proof
    fix v assume v: "v \<in> set (takeWhile (\<lambda>x. x \<noteq> u) pdfs)"
    from sp bc u have "map fst ?c = map fst pre @ u # map fst post" by simp
    from counter_order [OF this] v have "v \<in> set (map fst pre)" by blast
    then obtain n where vn: "(v, n) \<in> set pre" by auto
    with sp bc have "(v, n) \<in> set ?c" by simp
    from counter_entry [OF this] have n: "n = count_list pdfs v" by simp
    from lt vn have "n < snd m" by fastforce
    with n um(2) show "count_list pdfs v < count_list pdfs u" by simp
  qed
qed

text \<open>
  Claim C5. The miner tallies, over all entries of the retrieval history, the source locators
  whose lower-cased text ends in ".pdf", and no others. When there is none it returns
  nothing, the fallback node reports that no fallback is available and the loop routes to
  escalation. Otherwise it returns one of those locators, no other locator is counted more
  often, and every locator seen earlier in the history than the first occurrence of the
  returned one is counted strictly less often: among the most cited, the first seen wins.
\<close>

theorem most_cited_pdf_first_seen_wins:
  "(case get_most_frequent_pdf_url hist of
      None \<Rightarrow> filter is_pdf_url (concat (map e_urls hist)) = []
    | Some u \<Rightarrow>
        u \<in> set (filter is_pdf_url (concat (map e_urls hist))) \<and>
        endswith (lower u) ''.pdf'' \<and>
        (\<forall>v\<in>set (filter is_pdf_url (concat (map e_urls hist))).
           count_list (filter is_pdf_url (concat (map e_urls hist))) v \<le>
           count_list (filter is_pdf_url (concat (map e_urls hist))) u) \<and>
        (\<forall>v\<in>set (takeWhile (\<lambda>x. x \<noteq> u) (filter is_pdf_url (concat (map e_urls hist)))).
           count_list (filter is_pdf_url (concat (map e_urls hist))) v <
           count_list (filter is_pdf_url (concat (map e_urls hist))) u)) \<and>
   (filter is_pdf_url (concat (map e_urls hist)) = [] \<longrightarrow>
      get_most_frequent_pdf_url hist = None) \<and>
   (filter is_pdf_url (concat (map e_urls (rag_history s))) = [] \<longrightarrow>
      pdf_fallback_node (x_disk x) (x_toc x) s = s\<lparr>pdf_fallback_used := False\<rparr> \<and>
      node_of (step x (PdfFallback, s, w)) = Escalate)"
proof (intro conjI)
  show "case get_most_frequent_pdf_url hist of
      None \<Rightarrow> filter is_pdf_url (concat (map e_urls hist)) = []
    | Some u \<Rightarrow>
        u \<in> set (filter is_pdf_url (concat (map e_urls hist))) \<and>
        endswith (lower u) ''.pdf'' \<and>
        (\<forall>v\<in>set (filter is_pdf_url (concat (map e_urls hist))).
           count_list (filter is_pdf_url (concat (map e_urls hist))) v \<le>
           count_list (filter is_pdf_url (concat (map e_urls hist))) u) \<and>
        (\<forall>v\<in>set (takeWhile (\<lambda>x. x \<noteq> u) (filter is_pdf_url (concat (map e_urls hist)))).
           count_list (filter is_pdf_url (concat (map e_urls hist))) v <
           count_list (filter is_pdf_url (concat (map e_urls hist))) u)"
  proof (cases "get_most_frequent_pdf_url hist")
    case None
    then have "filter is_pdf_url (concat (map e_urls hist)) = []"
      by (simp add: most_frequent_none)
    then show ?thesis unfolding None option.case .
  next
    case (Some u)
    from most_frequent_some(1) [OF Some]
    have "is_pdf_url u" by simp
    then have e: "endswith (lower u) ''.pdf''" by (simp add: is_pdf_url_def)
    from most_frequent_some [OF Some] e show ?thesis
      unfolding Some option.case by (intro conjI)
  qed
next
  show "filter is_pdf_url (concat (map e_urls hist)) = [] \<longrightarrow>
      get_most_frequent_pdf_url hist = None"
    by (simp add: most_frequent_none)
next
  show "filter is_pdf_url (concat (map e_urls (rag_history s))) = [] \<longrightarrow>
      pdf_fallback_node (x_disk x) (x_toc x) s = s\<lparr>pdf_fallback_used := False\<rparr> \<and>
      node_of (step x (PdfFallback, s, w)) = Escalate"
  proof
    assume "filter is_pdf_url (concat (map e_urls (rag_history s))) = []"
    then have n: "get_most_frequent_pdf_url (rag_history s) = None"
      by (simp add: most_frequent_none)
    then have r: "pdf_fallback_node (x_disk x) (x_toc x) s = s\<lparr>pdf_fallback_used := False\<rparr>"
      by (simp add: pdf_fallback_node_def)
    have "node_of (step x (PdfFallback, s, w)) =
            route_after_pdf_fallback (pdf_fallback_node (x_disk x) (x_toc x) s)"
      by (simp add: Let_def)
    with r show "pdf_fallback_node (x_disk x) (x_toc x) s = s\<lparr>pdf_fallback_used := False\<rparr> \<and>
      node_of (step x (PdfFallback, s, w)) = Escalate"
      by (simp add: route_after_pdf_fallback_def del: step.simps)
  qed
qed

theorem most_cited_pdf_first_seen_wins_witness:
  "get_most_frequent_pdf_url tied_history = Some ''https://dell.example/a.pdf'' \<and>
   ''https://dell.example/a.pdf'' \<in>
     set (filter is_pdf_url (concat (map e_urls tied_history))) \<and>
   filter is_pdf_url (concat (map e_urls tied_history)) =
     [''https://dell.example/a.pdf'', ''https://dell.example/B.PDF'',
      ''https://dell.example/B.PDF'', ''https://dell.example/a.pdf''] \<and>
   filter is_pdf_url (concat (map e_urls (rag_history (initial_state ''c'')))) = [] \<and>
   node_of (step quiet (PdfFallback, initial_state ''c'',
                        \<lparr>support_log = [], tickets = [], slept = []\<rparr>)) = Escalate"
proof -
  have g: "get_most_frequent_pdf_url tied_history = Some ''https://dell.example/a.pdf''"
    by code_simp
  have f: "filter is_pdf_url (concat (map e_urls tied_history)) =
     [''https://dell.example/a.pdf'', ''https://dell.example/B.PDF'',
      ''https://dell.example/B.PDF'', ''https://dell.example/a.pdf'']"
    by code_simp
  have e: "filter is_pdf_url (concat (map e_urls (rag_history (initial_state ''c'')))) = []"
    by code_simp
  note T1 = most_cited_pdf_first_seen_wins [of tied_history, THEN conjunct1,
              unfolded g option.case, THEN conjunct1]
  note T2 = most_cited_pdf_first_seen_wins
              [of _ "initial_state ''c''" quiet "\<lparr>support_log = [], tickets = [], slept = []\<rparr>",
               THEN conjunct2, THEN conjunct2, THEN mp, OF e, THEN conjunct2]
  from g T1 f e T2 show ?thesis by (intro conjI)
qed

end
